theory Spec2Isabelle
  imports Main "HOL-Library.AList"
begin

section \<open>Data model\<close>

text \<open>
  A \<open>ServerWebSocket\<close> is an object compared by identity; the model names each one by a
  number. A JavaScript string is a sequence of UTF-16 code units and \<open>.length\<close> counts
  them; the model keeps the code units below 256, one \<open>char\<close> each, so \<open>length\<close> is
  \<open>.length\<close>. A timer handle (\<open>NodeJS.Timeout\<close>) is an object too, hence always truthy;
  the model numbers the handles in the order \<open>setTimeout\<close> hands them out.
\<close>

type_synonym socket = nat
type_synonym chat_id = string
type_synonym user_id = string
type_synonym timer_id = nat

text \<open>\<open>src/types/chat.ts\<close>, interface \<open>Message\<close>.\<close>

record message =
  msg_id :: string
  msg_chatId :: string
  msg_senderId :: string
  msg_senderName :: string
  msg_content :: string
  msg_createdAt :: string

text \<open>
  What \<open>JSON.parse\<close> returns. JSON numbers are kept as integers; \<open>undefined\<close>, which is
  not a JSON value, is \<open>None\<close> of \<open>json option\<close>.
\<close>

datatype json =
  JNull | JBool bool | JNum int | JStr string | JArr "json list" | JObj "(string \<times> json) list"

text \<open>
  A destructuring \<open>const { a, b } = v\<close> throws a \<open>TypeError\<close> when \<open>v\<close> is \<open>undefined\<close>
  or \<open>null\<close>; on any other value a property that is not there reads as \<open>undefined\<close>.
  Reading a property of \<open>null\<close> with \<open>v.a\<close> throws a \<open>TypeError\<close> as well.
\<close>

definition destructurable :: "json option \<Rightarrow> bool" where
  "destructurable v \<longleftrightarrow> v \<noteq> None \<and> v \<noteq> Some JNull"

definition property :: "json option \<Rightarrow> string \<Rightarrow> json option" where
  "property v k = (case v of Some (JObj kvs) \<Rightarrow> map_of kvs k | _ \<Rightarrow> None)"

text \<open>Whether a value counts as true in \<open>x || y\<close> and \<open>!x\<close>.\<close>

fun truthy :: "json \<Rightarrow> bool" where
  "truthy JNull = False"
| "truthy (JBool b) = b"
| "truthy (JNum n) = (n \<noteq> 0)"
| "truthy (JStr s) = (s \<noteq> [])"
| "truthy (JArr xs) = True"
| "truthy (JObj kvs) = True"

text \<open>
  The message of an \<open>Error\<close>: a literal text, or the template
  \<open>HTTP ${status}: ${v}\<close> of \<open>makeRequest\<close>, kept as the status and the value \<open>v\<close> that
  the template turns into text.
\<close>

datatype err_msg = Text string | HttpStatus nat json

text \<open>
  The \<open>details\<close> field of a \<open>WebSocketError\<close>: none, the \<open>errorData\<close> of a reply that is
  not ok, or \<open>{ originalError: lastError?.message }\<close>.
\<close>

datatype details = NoDetails | ErrorData json | OriginalError "err_msg option"

text \<open>
  \<open>src/utils/errors.ts\<close>: the subclasses of \<open>WebSocketError\<close>, and everything else that
  can be thrown (\<open>Error\<close>, \<open>TypeError\<close>, \<open>SyntaxError\<close>) as \<open>Error\<close>. A
  \<open>WebSocketError\<close> carries its class, message, \<open>statusCode\<close> (set by \<open>HttpError\<close> only)
  and details.
\<close>

datatype error_class =
  AuthenticationError | ValidationError | NotParticipantError | HttpError | InternalError

datatype js_error =
  Error err_msg
| WebSocketError error_class err_msg "nat option" details

fun code_of :: "error_class \<Rightarrow> string" where
  "code_of AuthenticationError = ''AUTH_FAILED''"
| "code_of ValidationError = ''VALIDATION_ERROR''"
| "code_of NotParticipantError = ''NOT_PARTICIPANT''"
| "code_of HttpError = ''HTTP_ERROR''"
| "code_of InternalError = ''INTERNAL_ERROR''"

fun message_of :: "js_error \<Rightarrow> err_msg" where
  "message_of (Error m) = m"
| "message_of (WebSocketError c m sc d) = m"

text \<open>\<open>src/types/websocket.ts\<close>: the frames the server sends, by type and payload.\<close>

datatype server_msg =
  Connected user_id "chat_id list"
| ChatMessage chat_id message
| ChatRead chat_id string user_id string
| ChatTyping chat_id user_id string bool
| UserOnline user_id bool
| Pong string
| ErrorMsg string err_msg details

text \<open>What a handler does to the outside: \<open>ws.send(frame)\<close> and \<open>ws.close(code, reason)\<close>.\<close>

datatype effect = Send socket server_msg | Close socket nat string

text \<open>
  \<open>src/types/user.ts\<close>, interface \<open>ConnectedUser\<close>. \<open>chatRooms\<close> is a \<open>Set\<close> and
  \<open>typingTimers\<close> a \<open>Map\<close>; both iterate in insertion order, so they are lists.
\<close>

record connected_user =
  userId :: user_id
  userName :: string
  email :: string
  role :: string
  ws :: socket
  token :: string
  chatRooms :: "chat_id list"
  connectedAt :: string
  typingTimers :: "(chat_id \<times> timer_id) list"

text \<open>
  The callback of the typing timer closes over \<open>chatId\<close>, \<open>ws\<close> and the \<open>user\<close> record
  it read \<open>userId\<close> and \<open>userName\<close> from.
\<close>

record typing_timeout =
  t_chatId :: chat_id
  t_ws :: socket
  t_userId :: user_id
  t_userName :: string

text \<open>
  The state of the process: the two maps of \<open>RoomManagerImpl\<close>, the two maps of
  \<open>PresenceService\<close>, and the runtime's table of timeouts that are scheduled and have
  neither fired nor been cleared.
\<close>

record server =
  rooms :: "chat_id \<rightharpoonup> socket list"
  wsRooms :: "socket \<rightharpoonup> chat_id list"
  connectedUsers :: "user_id \<rightharpoonup> connected_user"
  wsToUserId :: "socket \<rightharpoonup> user_id"
  timeouts :: "timer_id \<rightharpoonup> typing_timeout"
  nextTimeout :: timer_id

definition initial :: server where
  "initial = \<lparr>rooms = Map.empty, wsRooms = Map.empty, connectedUsers = Map.empty,
     wsToUserId = Map.empty, timeouts = Map.empty, nextTimeout = 0\<rparr>"

section \<open>JavaScript sets\<close>

text \<open>\<open>Set.prototype.add\<close>, \<open>Set.prototype.delete\<close> and \<open>new Set(iterable)\<close>.\<close>

definition set_add :: "'a \<Rightarrow> 'a list \<Rightarrow> 'a list" where
  "set_add x xs = (if x \<in> set xs then xs else xs @ [x])"

definition set_delete :: "'a \<Rightarrow> 'a list \<Rightarrow> 'a list" where
  "set_delete x xs = removeAll x xs"

definition new_Set :: "'a list \<Rightarrow> 'a list" where
  "new_Set xs = fold set_add xs []"

section \<open>Room manager (\<open>src/services/room-manager.ts\<close>)\<close>

definition joinRoom :: "chat_id \<Rightarrow> socket \<Rightarrow> server \<Rightarrow> server" where
  "joinRoom chatId w st =
     st\<lparr>rooms := (rooms st)(chatId \<mapsto>
            set_add w (case rooms st chatId of None \<Rightarrow> [] | Some room \<Rightarrow> room)),
        wsRooms := (wsRooms st)(w \<mapsto>
            set_add chatId (case wsRooms st w of None \<Rightarrow> [] | Some cs \<Rightarrow> cs))\<rparr>"

text \<open>The body shared by \<open>leaveRoom\<close> and the loop of \<open>leaveAllRooms\<close>.\<close>

definition room_delete :: "socket \<Rightarrow> chat_id \<Rightarrow> (chat_id \<rightharpoonup> socket list) \<Rightarrow> (chat_id \<rightharpoonup> socket list)" where
  "room_delete w chatId rs =
     (case rs chatId of
        None \<Rightarrow> rs
      | Some room \<Rightarrow>
          (if set_delete w room = [] then rs(chatId := None)
           else rs(chatId \<mapsto> set_delete w room)))"

definition leaveRoom :: "chat_id \<Rightarrow> socket \<Rightarrow> server \<Rightarrow> server" where
  "leaveRoom chatId w st =
     st\<lparr>rooms := room_delete w chatId (rooms st),
        wsRooms :=
          (case wsRooms st w of
             None \<Rightarrow> wsRooms st
           | Some cs \<Rightarrow>
               (if set_delete chatId cs = [] then (wsRooms st)(w := None)
                else (wsRooms st)(w \<mapsto> set_delete chatId cs)))\<rparr>"

definition leaveAllRooms :: "socket \<Rightarrow> server \<Rightarrow> server" where
  "leaveAllRooms w st =
     (case wsRooms st w of
        None \<Rightarrow> st
      | Some cs \<Rightarrow>
          st\<lparr>rooms := fold (room_delete w) cs (rooms st),
             wsRooms := (wsRooms st)(w := None)\<rparr>)"

definition getRoomParticipants :: "server \<Rightarrow> chat_id \<Rightarrow> socket list" where
  "getRoomParticipants st chatId = (case rooms st chatId of None \<Rightarrow> [] | Some room \<Rightarrow> room)"

definition getRoomCount :: "server \<Rightarrow> chat_id \<Rightarrow> nat" where
  "getRoomCount st chatId = (case rooms st chatId of None \<Rightarrow> 0 | Some room \<Rightarrow> length room)"

text \<open>
  \<open>broadcastToRoom\<close>: one \<open>ws.send\<close> per member in the room's order, skipping
  \<open>excludeWs\<close> when it is given. A throwing \<open>send\<close> is caught and logged, and the loop
  goes on; the effect recorded is the call.
\<close>

definition broadcastToRoom :: "server \<Rightarrow> chat_id \<Rightarrow> server_msg \<Rightarrow> socket option \<Rightarrow> effect list" where
  "broadcastToRoom st chatId m excludeWs =
     (case rooms st chatId of
        None \<Rightarrow> []
      | Some room \<Rightarrow> map (\<lambda>w. Send w m) (filter (\<lambda>w. excludeWs \<noteq> Some w) room))"

section \<open>Presence service (\<open>src/services/presence.ts\<close>)\<close>

definition addUser :: "connected_user \<Rightarrow> server \<Rightarrow> server" where
  "addUser user st =
     st\<lparr>connectedUsers := (connectedUsers st)(userId user \<mapsto> user),
        wsToUserId := (wsToUserId st)(ws user \<mapsto> userId user)\<rparr>"

text \<open>\<open>clearTimeout\<close>: the timeout is no longer scheduled.\<close>

definition clearTimeout :: "timer_id \<Rightarrow> (timer_id \<rightharpoonup> typing_timeout) \<Rightarrow> (timer_id \<rightharpoonup> typing_timeout)" where
  "clearTimeout t ts = ts(t := None)"

text \<open>\<open>if (!userId)\<close> holds for \<open>undefined\<close> and for the empty string.\<close>

definition removeUser :: "socket \<Rightarrow> server \<Rightarrow> connected_user option \<times> server" where
  "removeUser w st =
     (case wsToUserId st w of
        None \<Rightarrow> (None, st)
      | Some uid \<Rightarrow>
          (if uid = [] then (None, st)
           else (case connectedUsers st uid of
                   None \<Rightarrow> (None, st)
                 | Some user \<Rightarrow>
                     (Some user,
                      st\<lparr>timeouts := fold clearTimeout (map snd (typingTimers user)) (timeouts st),
                         connectedUsers := (connectedUsers st)(uid := None),
                         wsToUserId := (wsToUserId st)(w := None)\<rparr>))))"

definition getUserByWs :: "server \<Rightarrow> socket \<Rightarrow> connected_user option" where
  "getUserByWs st w =
     (case wsToUserId st w of
        None \<Rightarrow> None
      | Some uid \<Rightarrow> (if uid = [] then None else connectedUsers st uid))"

definition getUser :: "server \<Rightarrow> user_id \<Rightarrow> connected_user option" where
  "getUser st uid = connectedUsers st uid"

definition isUserOnline :: "server \<Rightarrow> user_id \<Rightarrow> bool" where
  "isUserOnline st uid = (connectedUsers st uid \<noteq> None)"

text \<open>
  \<open>broadcastPresence\<close>: the loop over \<open>chatIds\<close> with the set \<open>broadcastedRooms\<close> of
  the chat ids already served.
\<close>

fun presence_loop :: "server \<Rightarrow> server_msg \<Rightarrow> chat_id list \<Rightarrow> chat_id list \<Rightarrow> effect list" where
  "presence_loop st m [] broadcastedRooms = []"
| "presence_loop st m (chatId # chatIds) broadcastedRooms =
     (if chatId \<notin> set broadcastedRooms
      then broadcastToRoom st chatId m None
             @ presence_loop st m chatIds (set_add chatId broadcastedRooms)
      else presence_loop st m chatIds broadcastedRooms)"

definition broadcastPresence :: "server \<Rightarrow> user_id \<Rightarrow> bool \<Rightarrow> chat_id list \<Rightarrow> effect list" where
  "broadcastPresence st uid online chatIds = presence_loop st (UserOnline uid online) chatIds []"

definition setTypingTimer :: "user_id \<Rightarrow> chat_id \<Rightarrow> timer_id \<Rightarrow> server \<Rightarrow> server" where
  "setTypingTimer uid chatId timer st =
     (case connectedUsers st uid of
        None \<Rightarrow> st
      | Some user \<Rightarrow>
          st\<lparr>timeouts :=
               (case map_of (typingTimers user) chatId of
                  None \<Rightarrow> timeouts st
                | Some existingTimer \<Rightarrow> clearTimeout existingTimer (timeouts st)),
             connectedUsers := (connectedUsers st)(uid \<mapsto>
               user\<lparr>typingTimers := AList.update chatId timer (typingTimers user)\<rparr>)\<rparr>)"

definition clearTypingTimer :: "user_id \<Rightarrow> chat_id \<Rightarrow> server \<Rightarrow> server" where
  "clearTypingTimer uid chatId st =
     (case connectedUsers st uid of
        None \<Rightarrow> st
      | Some user \<Rightarrow>
          (case map_of (typingTimers user) chatId of
             None \<Rightarrow> st
           | Some timer \<Rightarrow>
               st\<lparr>timeouts := clearTimeout timer (timeouts st),
                  connectedUsers := (connectedUsers st)(uid \<mapsto>
                    user\<lparr>typingTimers := AList.delete chatId (typingTimers user)\<rparr>)\<rparr>))"

section \<open>HTTP client (\<open>src/services/http-client.ts\<close>)\<close>

text \<open>
  The body of a reply as the branch for a reply that is not ok reads it:
  \<open>response.text()\<close> rejects with a message, or it gives a text that \<open>JSON.parse\<close>
  rejects, or a text that \<open>JSON.parse\<close> turns into a value.
\<close>

datatype error_body = Unreadable string | Plain string | Parsed json

text \<open>
  What one attempt of \<open>makeRequest\<close> meets. Either \<open>fetch\<close> rejects (a network failure,
  or the abort that the per-attempt timeout triggers) with a message, or a response
  arrives: its status, its \<open>statusText\<close>, its body as the branch for a reply that is not
  ok reads it, and what \<open>response.json()\<close> gives, which an ok reply is read with
  (\<open>Inl\<close>: it rejects with that message, as it does on an empty body).
\<close>

datatype 'a attempt = Rejected string | Response nat string error_body "string + 'a"

text \<open>A \<open>TypeError\<close>, whose message is the engine's.\<close>

definition type_error :: js_error where
  "type_error = Error (Text ''TypeError'')"

definition response_ok :: "nat \<Rightarrow> bool" where
  "response_ok status \<longleftrightarrow> 200 \<le> status \<and> status \<le> 299"

text \<open>The \<open>try\<close> block: the value it returns, or the error that reaches the \<open>catch\<close>.\<close>

text \<open>
  The \<open>throw new HttpError(...)\<close> of a reply that is not ok, once \<open>errorData\<close> is there.
  Reading \<open>errorData.message\<close> of \<open>null\<close> throws a \<open>TypeError\<close> instead; a message that
  is missing or counts as false gives way to \<open>response.statusText\<close>.
\<close>

definition http_error :: "nat \<Rightarrow> string \<Rightarrow> json \<Rightarrow> js_error" where
  "http_error status statusText errorData =
     (if errorData = JNull then type_error
      else WebSocketError HttpError
             (HttpStatus status
                (case property (Some errorData) ''message'' of
                   None \<Rightarrow> JStr statusText
                 | Some v \<Rightarrow> (if truthy v then v else JStr statusText)))
             (Some status) (ErrorData errorData))"

text \<open>
  \<open>errorData\<close>: \<open>JSON.parse(errorText)\<close>, or \<open>{ message: errorText }\<close> when that throws;
  \<open>Inl\<close> when \<open>await response.text()\<close> rejects, which leaves the \<open>try\<close> block.
\<close>

definition errorData :: "error_body \<Rightarrow> string + json" where
  "errorData body =
     (case body of
        Unreadable m \<Rightarrow> Inl m
      | Plain errorText \<Rightarrow> Inr (JObj [(''message'', JStr errorText)])
      | Parsed j \<Rightarrow> Inr j)"

definition try_attempt :: "'a attempt \<Rightarrow> js_error + 'a" where
  "try_attempt a =
     (case a of
        Rejected m \<Rightarrow> Inl (Error (Text m))
      | Response status statusText body js \<Rightarrow>
          (if \<not> response_ok status
           then (case errorData body of
                   Inl m \<Rightarrow> Inl (Error (Text m))
                 | Inr d \<Rightarrow> Inl (http_error status statusText d))
           else (case js of Inl m \<Rightarrow> Inl (Error (Text m)) | Inr v \<Rightarrow> Inr v)))"

text \<open>\<open>error instanceof HttpError && error.statusCode && error.statusCode < 500\<close>\<close>

fun no_retry :: "js_error \<Rightarrow> bool" where
  "no_retry (WebSocketError HttpError m (Some statusCode) d) = (statusCode \<noteq> 0 \<and> statusCode < 500)"
| "no_retry e = False"

text \<open>\<open>Math.min(1000 * Math.pow(2, attempt), 5000)\<close>\<close>

definition backoff_delay :: "nat \<Rightarrow> nat" where
  "backoff_delay attempt = min (1000 * 2 ^ attempt) 5000"

text \<open>The \<open>throw\<close> after the loop.\<close>

definition after_retries :: "js_error option \<Rightarrow> js_error" where
  "after_retries lastError =
     WebSocketError HttpError (Text ''Request failed after retries'') None
       (OriginalError (map_option message_of lastError))"

text \<open>
  The loop of \<open>makeRequest\<close> from attempt number \<open>attempt\<close> on. The result is what the
  caller gets (\<open>Inl\<close>: the error thrown), the number of \<open>fetch\<close> calls made, and the
  delays slept between them, in milliseconds.
\<close>

function makeRequest_loop ::
  "(nat \<Rightarrow> 'a attempt) \<Rightarrow> nat \<Rightarrow> nat \<Rightarrow> js_error option \<Rightarrow> nat list
     \<Rightarrow> (js_error + 'a) \<times> nat \<times> nat list" where
  "makeRequest_loop outs retries attempt lastError slept =
     (if attempt < retries then
        (case try_attempt (outs attempt) of
           Inr v \<Rightarrow> (Inr v, Suc attempt, slept)
         | Inl error \<Rightarrow>
             (if no_retry error then (Inl error, Suc attempt, slept)
              else if attempt = retries - 1
              then (Inl (after_retries (Some error)), Suc attempt, slept)
              else makeRequest_loop outs retries (Suc attempt) (Some error)
                     (slept @ [backoff_delay attempt])))
      else (Inl (after_retries lastError), attempt, slept))"
  by pat_completeness auto
termination
  by (relation "measure (\<lambda>(outs, retries, attempt, lastError, slept). retries - attempt)") auto

text \<open>The equation of the loop unfolds itself; it is applied by hand.\<close>

declare makeRequest_loop.simps [simp del]

definition makeRequest :: "(nat \<Rightarrow> 'a attempt) \<Rightarrow> nat \<Rightarrow> (js_error + 'a) \<times> nat \<times> nat list" where
  "makeRequest outs retries = makeRequest_loop outs retries 0 None []"

text \<open>
  The methods of \<open>HttpClient\<close> the handlers call; each is \<open>makeRequest\<close> with the default
  \<open>retries = 3\<close>. \<open>getChats\<close> is given here with the \<open>id\<close> of each chat of the response,
  the one field \<open>handleConnection\<close> reads. The argument is the network: what the n-th
  attempt meets.
\<close>

definition getChats :: "(nat \<Rightarrow> chat_id list attempt) \<Rightarrow> js_error + chat_id list" where
  "getChats outs = fst (makeRequest outs 3)"

definition sendMessage :: "(nat \<Rightarrow> message attempt) \<Rightarrow> js_error + message" where
  "sendMessage outs = fst (makeRequest outs 3)"

definition markMessageAsRead :: "(nat \<Rightarrow> unit attempt) \<Rightarrow> js_error + unit" where
  "markMessageAsRead outs = fst (makeRequest outs 3)"

section \<open>Authentication (\<open>src/auth/jwt.ts\<close>)\<close>

text \<open>
  Of the request, what \<open>extractToken\<close> reads: the \<open>token\<close> query parameter, and the
  group the pattern \<open>^Bearer\s+(.+)$\<close> matches in the \<open>Authorization\<close> header.
\<close>

record request =
  queryToken :: "string option"
  bearerToken :: "string option"

definition extractToken :: "request \<Rightarrow> string option" where
  "extractToken req =
     (case queryToken req of
        Some t \<Rightarrow> (if t \<noteq> [] then Some t
                   else (case bearerToken req of
                           Some b \<Rightarrow> (if b \<noteq> [] then Some b else None) | None \<Rightarrow> None))
      | None \<Rightarrow> (case bearerToken req of
                   Some b \<Rightarrow> (if b \<noteq> [] then Some b else None) | None \<Rightarrow> None))"

text \<open>\<open>UserProfile\<close>; a field the response lacks is the empty string here.\<close>

record user_profile =
  p_userId :: string
  p_email :: string
  p_name :: string
  p_role :: string

definition auth_error :: "string \<Rightarrow> js_error" where
  "auth_error m = WebSocketError AuthenticationError (Text m) None NoDetails"

text \<open>
  \<open>verifyToken\<close>. The value of \<open>response.json()\<close> is given with its \<open>user\<close> property:
  \<open>None\<close> when it has none (or is \<open>null\<close>), and then reading \<open>profile.userId\<close> throws a
  \<open>TypeError\<close>, which the \<open>catch\<close> turns into an \<open>AuthenticationError\<close> like every error
  that is not one.
\<close>

definition verifyToken :: "user_profile option attempt \<Rightarrow> js_error + user_profile" where
  "verifyToken a =
     (case a of
        Rejected m \<Rightarrow> Inl (auth_error (''Authentication failed: '' @ m))
      | Response status statusText body js \<Rightarrow>
          (if \<not> response_ok status then
             (if status = 401 then Inl (auth_error ''Invalid or expired token'')
              else if status = 403 then Inl (auth_error ''Access forbidden'')
              else (case body of
                      Unreadable m \<Rightarrow> Inl (auth_error (''Authentication failed: '' @ m))
                    | _ \<Rightarrow> Inl (auth_error (''Authentication failed: '' @ statusText))))
           else (case js of
                   Inl m \<Rightarrow> Inl (auth_error (''Authentication failed: '' @ m))
                 | Inr None \<Rightarrow> Inl (auth_error (''Authentication failed: '' @ ''TypeError''))
                 | Inr (Some profile) \<Rightarrow>
                     (if p_userId profile = [] \<or> p_email profile = [] \<or> p_name profile = []
                      then Inl (auth_error ''Invalid user profile'')
                      else Inr profile))))"

definition authenticateConnection ::
  "request \<Rightarrow> user_profile option attempt \<Rightarrow> js_error + user_profile" where
  "authenticateConnection req a =
     (case extractToken req of
        None \<Rightarrow> Inl (auth_error ''No authentication token provided'')
      | Some t \<Rightarrow> verifyToken a)"

section \<open>Connection lifecycle (\<open>src/handlers/connection.ts\<close>)\<close>

definition sendError :: "socket \<Rightarrow> string \<Rightarrow> err_msg \<Rightarrow> details \<Rightarrow> effect list" where
  "sendError w code m d = [Send w (ErrorMsg code m d)]"

text \<open>The \<open>catch\<close> of \<open>handleConnection\<close>.\<close>

definition connection_failed :: "socket \<Rightarrow> js_error \<Rightarrow> effect list" where
  "connection_failed w error =
     (case error of
        WebSocketError AuthenticationError m sc d \<Rightarrow>
          sendError w ''AUTH_FAILED'' m d @ [Close w 4001 ''Authentication failed'']
      | _ \<Rightarrow>
          sendError w ''INTERNAL_ERROR'' (Text ''Internal server error'') NoDetails
            @ [Close w 1011 ''Internal error''])"

text \<open>
  The statements both revisions of \<open>handleConnection\<close> share once the two awaited calls
  have returned: build the record, \<open>addUser\<close>, join every chat of \<open>chatIds\<close>.
\<close>

definition register_user ::
  "server \<Rightarrow> socket \<Rightarrow> user_profile \<Rightarrow> string \<Rightarrow> chat_id list \<Rightarrow> string \<Rightarrow> server" where
  "register_user st w userProfile tok chatIds now =
     fold (\<lambda>chatId. joinRoom chatId w) chatIds
       (addUser \<lparr>userId = p_userId userProfile, userName = p_name userProfile,
                 email = p_email userProfile, role = p_role userProfile, ws = w, token = tok,
                 chatRooms = new_Set chatIds, connectedAt = now, typingTimers = []\<rparr> st)"

text \<open>
  \<open>handleConnection\<close> of \<open>src/handlers/connection.ts\<close>: the online status is broadcast,
  then the confirmation is sent.
\<close>

definition handleConnection ::
  "server \<Rightarrow> socket \<Rightarrow> request \<Rightarrow> user_profile option attempt \<Rightarrow> (nat \<Rightarrow> chat_id list attempt) \<Rightarrow> string
     \<Rightarrow> server \<times> effect list" where
  "handleConnection st w req authOut chatsOuts now =
     (case extractToken req of
        None \<Rightarrow>
          (st, sendError w ''AUTH_FAILED'' (Text ''No authentication token provided'') NoDetails
                 @ [Close w 4001 ''Authentication failed''])
      | Some tok \<Rightarrow>
          (case authenticateConnection req authOut of
             Inl error \<Rightarrow> (st, connection_failed w error)
           | Inr userProfile \<Rightarrow>
               (let chatIds = (case getChats chatsOuts of Inl error \<Rightarrow> [] | Inr ids \<Rightarrow> ids);
                    st' = register_user st w userProfile tok chatIds now
                in (st', broadcastPresence st' (p_userId userProfile) True chatIds
                           @ [Send w (Connected (p_userId userProfile) chatIds)]))))"

text \<open>
  The other revision of the file: the confirmation first, then the online status of the
  users already in the same chats (once per user id, by the set \<open>onlineUsers\<close>), then the
  broadcast.
\<close>

fun backfill_room ::
  "server \<Rightarrow> socket \<Rightarrow> user_id \<Rightarrow> socket list \<Rightarrow> user_id list \<Rightarrow> effect list \<times> user_id list" where
  "backfill_room st w uid [] onlineUsers = ([], onlineUsers)"
| "backfill_room st w uid (participantWs # participants) onlineUsers =
     (case getUserByWs st participantWs of
        None \<Rightarrow> backfill_room st w uid participants onlineUsers
      | Some participant \<Rightarrow>
          (if userId participant \<noteq> uid \<and> userId participant \<notin> set onlineUsers
           then (let (out, onlineUsers') =
                       backfill_room st w uid participants (set_add (userId participant) onlineUsers)
                 in (Send w (UserOnline (userId participant) True) # out, onlineUsers'))
           else backfill_room st w uid participants onlineUsers))"

fun backfill ::
  "server \<Rightarrow> socket \<Rightarrow> user_id \<Rightarrow> chat_id list \<Rightarrow> user_id list \<Rightarrow> effect list" where
  "backfill st w uid [] onlineUsers = []"
| "backfill st w uid (chatId # chatIds) onlineUsers =
     (let (out, onlineUsers') = backfill_room st w uid (getRoomParticipants st chatId) onlineUsers
      in out @ backfill st w uid chatIds onlineUsers')"

definition handleConnection_backfill ::
  "server \<Rightarrow> socket \<Rightarrow> request \<Rightarrow> user_profile option attempt \<Rightarrow> (nat \<Rightarrow> chat_id list attempt) \<Rightarrow> string
     \<Rightarrow> server \<times> effect list" where
  "handleConnection_backfill st w req authOut chatsOuts now =
     (case extractToken req of
        None \<Rightarrow>
          (st, sendError w ''AUTH_FAILED'' (Text ''No authentication token provided'') NoDetails
                 @ [Close w 4001 ''Authentication failed''])
      | Some tok \<Rightarrow>
          (case authenticateConnection req authOut of
             Inl error \<Rightarrow> (st, connection_failed w error)
           | Inr userProfile \<Rightarrow>
               (let chatIds = (case getChats chatsOuts of Inl error \<Rightarrow> [] | Inr ids \<Rightarrow> ids);
                    st' = register_user st w userProfile tok chatIds now
                in (st', Send w (Connected (p_userId userProfile) chatIds)
                           # backfill st' w (p_userId userProfile) chatIds []
                           @ broadcastPresence st' (p_userId userProfile) True chatIds))))"

definition handleDisconnection :: "socket \<Rightarrow> server \<Rightarrow> server \<times> effect list" where
  "handleDisconnection w st =
     (case getUserByWs st w of
        None \<Rightarrow> (st, [])
      | Some user \<Rightarrow>
          (let chatIds = chatRooms user;
               st' = leaveAllRooms w (snd (removeUser w st))
           in (st', broadcastPresence st' (userId user) False chatIds)))"

definition handlePing :: "socket \<Rightarrow> string \<Rightarrow> effect list" where
  "handlePing w now = [Send w (Pong now)]"

section \<open>Event handlers\<close>

text \<open>The string \<open>x\<close> when \<open>!x || typeof x !== 'string'\<close> is false.\<close>

definition nonempty_string :: "json option \<Rightarrow> string option" where
  "nonempty_string v = (case v of Some (JStr s) \<Rightarrow> (if s = [] then None else Some s) | _ \<Rightarrow> None)"

definition validation_error :: "string \<Rightarrow> js_error" where
  "validation_error m = WebSocketError ValidationError (Text m) None NoDetails"

definition not_participant_error :: js_error where
  "not_participant_error =
     WebSocketError NotParticipantError (Text ''You are not a participant in this chat'') None NoDetails"

text \<open>
  \<open>handleChatMessage\<close> (\<open>src/handlers/message.ts\<close>). It changes nothing in the state;
  the result is the error thrown or the frames sent. The awaited \<open>httpClient.sendMessage\<close>
  is the argument \<open>sendOuts\<close>.
\<close>

definition handleChatMessage ::
  "server \<Rightarrow> socket \<Rightarrow> json option \<Rightarrow> (nat \<Rightarrow> message attempt) \<Rightarrow> js_error + effect list" where
  "handleChatMessage st w payload sendOuts =
     (case getUserByWs st w of
        None \<Rightarrow> Inl (Error (Text ''User not found in presence service''))
      | Some user \<Rightarrow>
          (if \<not> destructurable payload then Inl type_error
           else (case nonempty_string (property payload ''chatId'') of
                   None \<Rightarrow> Inl (validation_error ''Invalid chatId'')
                 | Some chatId \<Rightarrow>
                     (case nonempty_string (property payload ''content'') of
                        None \<Rightarrow> Inl (validation_error ''Invalid message content'')
                      | Some content \<Rightarrow>
                          (if length content = 0
                           then Inl (validation_error ''Message content cannot be empty'')
                           else if chatId \<notin> set (chatRooms user) then Inl not_participant_error
                           else (case sendMessage sendOuts of
                                   Inl error \<Rightarrow> Inl error
                                 | Inr response \<Rightarrow>
                                     Inr (broadcastToRoom st chatId (ChatMessage chatId response)
                                            (Some w))))))))"

text \<open>\<open>handleChatRead\<close> (\<open>src/handlers/read.ts\<close>); \<open>now\<close> is \<open>new Date().toISOString()\<close>.\<close>

definition handleChatRead ::
  "server \<Rightarrow> socket \<Rightarrow> json option \<Rightarrow> (nat \<Rightarrow> unit attempt) \<Rightarrow> string \<Rightarrow> js_error + effect list" where
  "handleChatRead st w payload readOuts now =
     (case getUserByWs st w of
        None \<Rightarrow> Inl (Error (Text ''User not found in presence service''))
      | Some user \<Rightarrow>
          (if \<not> destructurable payload then Inl type_error
           else (case nonempty_string (property payload ''chatId'') of
                   None \<Rightarrow> Inl (validation_error ''Invalid chatId'')
                 | Some chatId \<Rightarrow>
                     (case nonempty_string (property payload ''messageId'') of
                        None \<Rightarrow> Inl (validation_error ''Invalid messageId'')
                      | Some messageId \<Rightarrow>
                          (if chatId \<notin> set (chatRooms user) then Inl not_participant_error
                           else (case markMessageAsRead readOuts of
                                   Inl error \<Rightarrow> Inl error
                                 | Inr u \<Rightarrow>
                                     Inr (broadcastToRoom st chatId
                                            (ChatRead chatId messageId (userId user) now)
                                            (Some w))))))))"

text \<open>\<open>setTimeout\<close> with the callback of \<open>handleChatTyping\<close>: a new handle, scheduled.\<close>

definition setTimeout :: "typing_timeout \<Rightarrow> server \<Rightarrow> timer_id \<times> server" where
  "setTimeout cb st =
     (nextTimeout st,
      st\<lparr>timeouts := (timeouts st)(nextTimeout st \<mapsto> cb), nextTimeout := Suc (nextTimeout st)\<rparr>)"

text \<open>\<open>handleChatTyping\<close> (the typing handler, \<open>handlers/typing.ts\<close>).\<close>

definition handleChatTyping ::
  "server \<Rightarrow> socket \<Rightarrow> json option \<Rightarrow> js_error + server \<times> effect list" where
  "handleChatTyping st w payload =
     (case getUserByWs st w of
        None \<Rightarrow> Inl (Error (Text ''User not found in presence service''))
      | Some user \<Rightarrow>
          (if \<not> destructurable payload then Inl type_error
           else (case nonempty_string (property payload ''chatId'') of
                   None \<Rightarrow> Inl (validation_error ''Invalid chatId'')
                 | Some chatId \<Rightarrow>
                     (case property payload ''isTyping'' of
                        Some (JBool isTyping) \<Rightarrow>
                          (if chatId \<notin> set (chatRooms user) then Inl not_participant_error
                           else (let out = broadcastToRoom st chatId
                                             (ChatTyping chatId (userId user) (userName user) isTyping)
                                             (Some w)
                                 in if isTyping
                                    then (let st1 = clearTypingTimer (userId user) chatId st;
                                              (timer, st2) =
                                                setTimeout \<lparr>t_chatId = chatId, t_ws = w,
                                                  t_userId = userId user, t_userName = userName user\<rparr> st1
                                          in Inr (setTypingTimer (userId user) chatId timer st2, out))
                                    else Inr (clearTypingTimer (userId user) chatId st, out)))
                      | _ \<Rightarrow> Inl (validation_error ''Invalid isTyping value'')))))"

text \<open>
  The callback of the typing timer, run on the state the process is in when it fires, and
  the runtime firing a timeout that is still scheduled.
\<close>

definition typingExpired :: "typing_timeout \<Rightarrow> server \<Rightarrow> effect list" where
  "typingExpired cb st =
     broadcastToRoom st (t_chatId cb)
       (ChatTyping (t_chatId cb) (t_userId cb) (t_userName cb) False) (Some (t_ws cb))"

definition fireTimeout :: "timer_id \<Rightarrow> server \<Rightarrow> server \<times> effect list" where
  "fireTimeout t st =
     (case timeouts st t of
        None \<Rightarrow> (st, [])
      | Some cb \<Rightarrow> (st\<lparr>timeouts := (timeouts st)(t := None)\<rparr>, typingExpired cb st))"

section \<open>Message routing (\<open>src/index.ts\<close>)\<close>

text \<open>
  The inbound frame, \<open>string | Buffer\<close>; a text frame reaches the handler as the string
  decoded from the UTF-8 bytes on the wire.
\<close>

datatype raw_message = Str string | Buf "nat list"

text \<open>
  The environment of \<open>handleMessage\<close>: the library functions \<open>JSON.parse\<close> (\<open>None\<close>: it
  throws) and \<open>Buffer.toString('utf-8')\<close>, \<open>config.maxMessageSize\<close>, and whether
  \<open>NODE_ENV\<close> is \<open>development\<close>.
\<close>

record env =
  JSON_parse :: "string \<Rightarrow> json option"
  Buffer_toString :: "nat list \<Rightarrow> string"
  maxMessageSize :: int
  development :: bool

definition with_state :: "server \<Rightarrow> js_error + effect list \<Rightarrow> js_error + server \<times> effect list" where
  "with_state st r = (case r of Inl error \<Rightarrow> Inl error | Inr out \<Rightarrow> Inr (st, out))"

text \<open>The \<open>try\<close> block of \<open>handleMessage\<close>.\<close>

definition route ::
  "env \<Rightarrow> server \<Rightarrow> socket \<Rightarrow> raw_message \<Rightarrow> (nat \<Rightarrow> message attempt) \<Rightarrow> (nat \<Rightarrow> unit attempt)
     \<Rightarrow> string \<Rightarrow> js_error + server \<times> effect list" where
  "route e st w m sendOuts readOuts now =
     (let messageStr = (case m of Str s \<Rightarrow> s | Buf b \<Rightarrow> Buffer_toString e b)
      in if int (length messageStr) > maxMessageSize e
         then Inr (st, sendError w ''VALIDATION_ERROR'' (Text ''Message too large'') NoDetails)
         else (case JSON_parse e messageStr of
                 None \<Rightarrow> Inr (st, sendError w ''INVALID_MESSAGE'' (Text ''Invalid JSON format'') NoDetails)
               | Some parsedMessage \<Rightarrow>
                   (if \<not> destructurable (Some parsedMessage) then Inl type_error
                    else (case nonempty_string (property (Some parsedMessage) ''type'') of
                            None \<Rightarrow>
                              Inr (st, sendError w ''INVALID_MESSAGE''
                                         (Text ''Missing or invalid message type'') NoDetails)
                          | Some ty \<Rightarrow>
                              (let payload = property (Some parsedMessage) ''payload''
                               in if ty = ''chat:message''
                                  then with_state st (handleChatMessage st w payload sendOuts)
                                  else if ty = ''chat:read''
                                  then with_state st (handleChatRead st w payload readOuts now)
                                  else if ty = ''chat:typing'' then handleChatTyping st w payload
                                  else if ty = ''ping'' then Inr (st, handlePing w now)
                                  else Inr (st, sendError w ''INVALID_MESSAGE''
                                                  (Text (''Unknown message type: '' @ ty)) NoDetails))))))"

definition handleMessage ::
  "env \<Rightarrow> server \<Rightarrow> socket \<Rightarrow> raw_message \<Rightarrow> (nat \<Rightarrow> message attempt) \<Rightarrow> (nat \<Rightarrow> unit attempt)
     \<Rightarrow> string \<Rightarrow> server \<times> effect list" where
  "handleMessage e st w m sendOuts readOuts now =
     (case route e st w m sendOuts readOuts now of
        Inr r \<Rightarrow> r
      | Inl (WebSocketError c msg sc d) \<Rightarrow> (st, sendError w (code_of c) msg d)
      | Inl (Error msg) \<Rightarrow>
          (st, sendError w ''INTERNAL_ERROR'' (Text ''An internal error occurred'')
                 (if development e then OriginalError (Some msg) else NoDetails)))"

section \<open>The server as a machine\<close>

text \<open>
  One step per entry point of the process: the \<open>open\<close> handler (in either revision of
  \<open>handleConnection\<close>), the \<open>message\<close> handler, a typing timer firing, the \<open>close\<close>
  handler. Each carries what the outside world supplies to it.
\<close>

datatype event =
  Open socket request "user_profile option attempt" "nat \<Rightarrow> chat_id list attempt" string
| OpenBackfill socket request "user_profile option attempt" "nat \<Rightarrow> chat_id list attempt" string
| Frame env socket raw_message "nat \<Rightarrow> message attempt" "nat \<Rightarrow> unit attempt" string
| Fire timer_id
| Closed socket

fun step :: "event \<Rightarrow> server \<Rightarrow> server \<times> effect list" where
  "step (Open w req authOut chatsOuts now) st = handleConnection st w req authOut chatsOuts now"
| "step (OpenBackfill w req authOut chatsOuts now) st =
     handleConnection_backfill st w req authOut chatsOuts now"
| "step (Frame e w m sendOuts readOuts now) st = handleMessage e st w m sendOuts readOuts now"
| "step (Fire t) st = fireTimeout t st"
| "step (Closed w) st = handleDisconnection w st"

definition exec_from :: "server \<Rightarrow> event list \<Rightarrow> server" where
  "exec_from st evs = fold (\<lambda>ev s. fst (step ev s)) evs st"

definition exec :: "event list \<Rightarrow> server" where
  "exec evs = exec_from initial evs"

section \<open>The registry on its own\<close>

datatype room_op = Join chat_id socket | Leave chat_id socket | LeaveAll socket

fun room_op_apply :: "room_op \<Rightarrow> server \<Rightarrow> server" where
  "room_op_apply (Join c w) st = joinRoom c w st"
| "room_op_apply (Leave c w) st = leaveRoom c w st"
| "room_op_apply (LeaveAll w) st = leaveAllRooms w st"

section \<open>Invariants\<close>

text \<open>The chats \<open>wsRooms\<close> lists for a socket.\<close>

definition socketRooms :: "server \<Rightarrow> socket \<Rightarrow> chat_id list" where
  "socketRooms st w = (case wsRooms st w of None \<Rightarrow> [] | Some cs \<Rightarrow> cs)"

text \<open>
  The two maps of the room manager agree, no room and no socket entry is an empty set,
  and a room lists a socket once.
\<close>

definition reg_inv :: "server \<Rightarrow> bool" where
  "reg_inv st \<longleftrightarrow>
     (\<forall>c. rooms st c \<noteq> Some [] \<and> distinct (getRoomParticipants st c)) \<and>
     (\<forall>w. wsRooms st w \<noteq> Some []) \<and>
     (\<forall>c w. w \<in> set (getRoomParticipants st c) \<longleftrightarrow> c \<in> set (socketRooms st w))"

section \<open>Vocabulary of the claims about \<open>makeRequest\<close>\<close>

text \<open>
  An attempt the loop goes on after: \<open>fetch\<close> rejected (network failure or timeout), or
  the response has a server-fault status.
\<close>

definition retryable :: "'a attempt \<Rightarrow> bool" where
  "retryable a = (case a of Rejected m \<Rightarrow> True | Response status t b js \<Rightarrow> 500 \<le> status)"

text \<open>An attempt that succeeds with the value \<open>v\<close>.\<close>

definition succeeds :: "'a attempt \<Rightarrow> 'a \<Rightarrow> bool" where
  "succeeds a v = (case a of Rejected m \<Rightarrow> False
     | Response status t b js \<Rightarrow> response_ok status \<and> js = Inr v)"

section \<open>Sample inputs\<close>

text \<open>
  Concrete inputs for the examples below: a session record, a request with a token, a
  profile response for an identity, a chat list response, and an environment whose
  \<open>JSON.parse\<close> yields a given value (the frame's text stands for its JSON).
\<close>

definition session_of :: "socket \<Rightarrow> user_id \<Rightarrow> chat_id list \<Rightarrow> connected_user" where
  "session_of w uid cs =
     \<lparr>userId = uid, userName = ''n'', email = ''e'', role = ''buyer'', ws = w, token = ''tok'',
      chatRooms = cs, connectedAt = ''t'', typingTimers = []\<rparr>"

definition with_token :: request where
  "with_token = \<lparr>queryToken = Some ''tok'', bearerToken = None\<rparr>"

definition profile_of :: "user_id \<Rightarrow> user_profile option attempt" where
  "profile_of uid =
     Response 200 ''OK'' (Plain [])
       (Inr (Some \<lparr>p_userId = uid, p_email = ''e'', p_name = ''n'', p_role = ''buyer''\<rparr>))"

definition chats_of :: "chat_id list \<Rightarrow> nat \<Rightarrow> chat_id list attempt" where
  "chats_of cs = (\<lambda>i. Response 200 ''OK'' (Plain []) (Inr cs))"

definition env_of :: "json option \<Rightarrow> env" where
  "env_of j = \<lparr>JSON_parse = (\<lambda>s. j), Buffer_toString = (\<lambda>b. []), maxMessageSize = 10000,
     development = False\<rparr>"

definition frame_of :: "string \<Rightarrow> (string \<times> json) list \<Rightarrow> json" where
  "frame_of ty payload = JObj [(''type'', JStr ty), (''payload'', JObj payload)]"

definition stored :: "nat \<Rightarrow> message attempt" where
  "stored = (\<lambda>i. Response 201 ''Created'' (Plain [])
     (Inr \<lparr>msg_id = ''m1'', msg_chatId = ''A'', msg_senderId = ''u'', msg_senderName = ''n'',
           msg_content = ''hi'', msg_createdAt = ''t''\<rparr>))"

definition done_ok :: "nat \<Rightarrow> unit attempt" where
  "done_ok = (\<lambda>i. Response 200 ''OK'' (Plain []) (Inr ()))"

text \<open>Two members of one chat, and a downstream service that answers 500 every time.\<close>

definition two_members :: "event list" where
  "two_members =
     [Open 1 with_token (profile_of ''u'') (chats_of [''A'']) ''t0'',
      Open 2 with_token (profile_of ''v'') (chats_of [''A'']) ''t1'']"

definition failing :: "nat \<Rightarrow> 'a attempt" where
  "failing = (\<lambda>i. Response 500 ''Internal Server Error'' (Plain ''down'') (Inl []))"

text \<open>
  The size in bytes of a text frame on the wire, where it is UTF-8: a code unit below
  128 is one byte, one from 128 to 255 is two.
\<close>

definition utf8_size :: "string \<Rightarrow> nat" where
  "utf8_size s = sum_list (map (\<lambda>c. if (of_char c :: nat) < 128 then 1 else 2) s)"

text \<open>The two maps of the room manager are the same in both states.\<close>

definition same_rooms :: "server \<Rightarrow> server \<Rightarrow> bool" where
  "same_rooms st st' \<longleftrightarrow> rooms st' = rooms st \<and> wsRooms st' = wsRooms st"

text \<open>
  Socket 1 opens as identity \<open>u\<close> in chat \<open>A\<close> and signals typing there; socket 2 opens
  as the same identity; socket 1 closes. The typing timer of socket 1 is number 0.
\<close>

definition stale_timer :: "event list" where
  "stale_timer =
     [Open 1 with_token (profile_of ''u'') (chats_of [''A'']) ''t0'',
      Frame (env_of (Some (frame_of ''chat:typing'' [(''chatId'', JStr ''A''), (''isTyping'', JBool True)])))
        1 (Str ''frame'') stored done_ok ''t1'',
      Open 2 with_token (profile_of ''u'') (chats_of [''A'']) ''t2'',
      Closed 1]"

text \<open>Socket 1 is in the chats \<open>A\<close> and \<open>B\<close>.\<close>

definition shared_two :: "event list" where
  "shared_two = [Open 1 with_token (profile_of ''u'') (chats_of [''A'', ''B'']) ''t0'']"

text \<open>Sockets 1 and 2 open as the same identity, in chat \<open>A\<close>; socket 1 closes.\<close>

definition twice_u :: "event list" where
  "twice_u =
     [Open 1 with_token (profile_of ''u'') (chats_of [''A'']) ''t0'',
      Open 2 with_token (profile_of ''u'') (chats_of [''A'']) ''t1'',
      Closed 1]"

text \<open>
  An open that registers a session does so on a socket that has none, for an identity
  that has none: no identity is connected twice at the same time.
\<close>

definition fresh_open :: "event \<Rightarrow> server \<Rightarrow> bool" where
  "fresh_open ev st =
     (case ev of
        Open w req authOut chatsOuts now \<Rightarrow>
          (case authenticateConnection req authOut of
             Inl error \<Rightarrow> True
           | Inr p \<Rightarrow> wsToUserId st w = None \<and> connectedUsers st (p_userId p) = None)
      | OpenBackfill w req authOut chatsOuts now \<Rightarrow>
          (case authenticateConnection req authOut of
             Inl error \<Rightarrow> True
           | Inr p \<Rightarrow> wsToUserId st w = None \<and> connectedUsers st (p_userId p) = None)
      | _ \<Rightarrow> True)"

text \<open>Every open of the event list is such an open, in the state it meets.\<close>

fun one_session_each :: "server \<Rightarrow> event list \<Rightarrow> bool" where
  "one_session_each st [] = True"
| "one_session_each st (ev # evs) = (fresh_open ev st \<and> one_session_each (fst (step ev st)) evs)"

text \<open>
  The two maps of the presence service point at each other, and the chats \<open>wsRooms\<close>
  lists for a socket are those of the session \<open>getUserByWs\<close> finds for it.
\<close>

definition dir_inv :: "server \<Rightarrow> bool" where
  "dir_inv st \<longleftrightarrow>
     (\<forall>w uid. wsToUserId st w = Some uid \<longrightarrow>
        uid \<noteq> [] \<and> (\<exists>u. connectedUsers st uid = Some u \<and> ws u = w)) \<and>
     (\<forall>uid u. connectedUsers st uid = Some u \<longrightarrow> wsToUserId st (ws u) = Some uid) \<and>
     (\<forall>w. set (socketRooms st w)
        = (case getUserByWs st w of None \<Rightarrow> {} | Some u \<Rightarrow> set (chatRooms u)))"

text \<open>
  Both states have the same sockets, and under each identity a record with the same
  socket and chats (the timers may differ).
\<close>

definition session_core :: "connected_user \<Rightarrow> socket \<times> chat_id list" where
  "session_core u = (ws u, chatRooms u)"

definition same_sessions :: "server \<Rightarrow> server \<Rightarrow> bool" where
  "same_sessions st st' \<longleftrightarrow>
     wsToUserId st' = wsToUserId st \<and>
     (\<forall>uid. map_option session_core (connectedUsers st' uid)
        = map_option session_core (connectedUsers st uid))"

section \<open>The registry's invariant and idempotence\<close>

lemma set_add_nonempty: "set_add x xs \<noteq> []"
  by (auto simp: set_add_def)

lemma set_set_add: "set (set_add x xs) = insert x (set xs)"
  by (auto simp: set_add_def)

lemma distinct_set_add: "distinct xs \<Longrightarrow> distinct (set_add x xs)"
  by (simp add: set_add_def)

lemma participants_initial: "getRoomParticipants initial c = []"
  by (simp add: getRoomParticipants_def initial_def)

lemma reg_inv_initial: "reg_inv initial"
  by (simp add: reg_inv_def initial_def getRoomParticipants_def socketRooms_def)

lemma participants_joinRoom:
  "getRoomParticipants (joinRoom c w st) c' =
     (if c' = c then set_add w (getRoomParticipants st c) else getRoomParticipants st c')"
  by (simp add: joinRoom_def getRoomParticipants_def)

lemma socketRooms_joinRoom:
  "socketRooms (joinRoom c w st) w' =
     (if w' = w then set_add c (socketRooms st w) else socketRooms st w')"
  by (simp add: joinRoom_def socketRooms_def)

lemma rooms_joinRoom_nonempty:
  "rooms st c' \<noteq> Some [] \<Longrightarrow> rooms (joinRoom c w st) c' \<noteq> Some []"
  by (simp add: joinRoom_def set_add_nonempty)

lemma wsRooms_joinRoom_nonempty:
  "wsRooms st w' \<noteq> Some [] \<Longrightarrow> wsRooms (joinRoom c w st) w' \<noteq> Some []"
  by (simp add: joinRoom_def set_add_nonempty)

lemma reg_inv_joinRoom:
  assumes "reg_inv st"
  shows "reg_inv (joinRoom c w st)"
proof -
  have a: "\<And>c. rooms st c \<noteq> Some []" and d: "\<And>c. distinct (getRoomParticipants st c)"
    and b: "\<And>w. wsRooms st w \<noteq> Some []"
    and m: "\<And>c w. w \<in> set (getRoomParticipants st c) \<longleftrightarrow> c \<in> set (socketRooms st w)"
    using assms by (simp_all add: reg_inv_def)
  show ?thesis
    unfolding reg_inv_def
    by (auto simp: participants_joinRoom socketRooms_joinRoom rooms_joinRoom_nonempty
        wsRooms_joinRoom_nonempty a b d m set_set_add distinct_set_add)
qed

lemma removeAll_twice: "removeAll x (removeAll x xs) = removeAll x xs"
  by (induction xs) auto

lemma room_delete_apply:
  "room_delete w c rs c' =
     (if c' = c then (case rs c of None \<Rightarrow> None
                      | Some room \<Rightarrow> if removeAll w room = [] then None else Some (removeAll w room))
      else rs c')"
  by (simp add: room_delete_def set_delete_def split: option.splits)

lemma fold_room_delete_apply:
  "fold (room_delete w) cs rs c' =
     (if c' \<in> set cs then (case rs c' of None \<Rightarrow> None
                      | Some room \<Rightarrow> if removeAll w room = [] then None else Some (removeAll w room))
      else rs c')"
proof (induction cs arbitrary: rs)
  case Nil
  show ?case by simp
next
  case (Cons c cs)
  have "fold (room_delete w) (c # cs) rs c' = fold (room_delete w) cs (room_delete w c rs) c'"
    by simp
  also have "\<dots> = (if c' \<in> set cs
      then (case room_delete w c rs c' of None \<Rightarrow> None
            | Some room \<Rightarrow> if removeAll w room = [] then None else Some (removeAll w room))
      else room_delete w c rs c')"
    by (rule Cons.IH)
  also have "\<dots> = (if c' \<in> set (c # cs) then (case rs c' of None \<Rightarrow> None
                      | Some room \<Rightarrow> if removeAll w room = [] then None else Some (removeAll w room))
      else rs c')"
    by (auto simp: room_delete_apply removeAll_twice split: option.splits)
  finally show ?case .
qed

lemma participants_leaveRoom:
  "getRoomParticipants (leaveRoom c w st) c' =
     (if c' = c then removeAll w (getRoomParticipants st c) else getRoomParticipants st c')"
  by (simp add: leaveRoom_def getRoomParticipants_def room_delete_apply split: option.splits)

lemma socketRooms_leaveRoom:
  "socketRooms (leaveRoom c w st) w' =
     (if w' = w then removeAll c (socketRooms st w) else socketRooms st w')"
  by (simp add: leaveRoom_def socketRooms_def set_delete_def split: option.splits)

lemma rooms_leaveRoom_nonempty:
  "rooms st c' \<noteq> Some [] \<Longrightarrow> rooms (leaveRoom c w st) c' \<noteq> Some []"
  by (simp add: leaveRoom_def room_delete_apply split: option.splits)

lemma wsRooms_leaveRoom_nonempty:
  "wsRooms st w' \<noteq> Some [] \<Longrightarrow> wsRooms (leaveRoom c w st) w' \<noteq> Some []"
  by (simp add: leaveRoom_def set_delete_def split: option.splits)

lemma reg_inv_leaveRoom:
  assumes "reg_inv st"
  shows "reg_inv (leaveRoom c w st)"
proof -
  have a: "\<And>c. rooms st c \<noteq> Some []" and d: "\<And>c. distinct (getRoomParticipants st c)"
    and b: "\<And>w. wsRooms st w \<noteq> Some []"
    and m: "\<And>c w. w \<in> set (getRoomParticipants st c) \<longleftrightarrow> c \<in> set (socketRooms st w)"
    using assms by (simp_all add: reg_inv_def)
  show ?thesis
    unfolding reg_inv_def
    by (auto simp: participants_leaveRoom socketRooms_leaveRoom rooms_leaveRoom_nonempty
        wsRooms_leaveRoom_nonempty a b d m distinct_removeAll)
qed

lemma participants_leaveAllRooms:
  "getRoomParticipants (leaveAllRooms w st) c =
     (if c \<in> set (socketRooms st w) then removeAll w (getRoomParticipants st c)
      else getRoomParticipants st c)"
  by (simp add: leaveAllRooms_def getRoomParticipants_def socketRooms_def
      fold_room_delete_apply split: option.splits)

lemma socketRooms_leaveAllRooms:
  "socketRooms (leaveAllRooms w st) w' = (if w' = w then [] else socketRooms st w')"
  by (simp add: leaveAllRooms_def socketRooms_def split: option.splits)

lemma rooms_leaveAllRooms_nonempty:
  "rooms st c \<noteq> Some [] \<Longrightarrow> rooms (leaveAllRooms w st) c \<noteq> Some []"
  by (simp add: leaveAllRooms_def fold_room_delete_apply split: option.splits)

lemma wsRooms_leaveAllRooms_nonempty:
  "wsRooms st w' \<noteq> Some [] \<Longrightarrow> wsRooms (leaveAllRooms w st) w' \<noteq> Some []"
  by (simp add: leaveAllRooms_def split: option.splits)

lemma reg_inv_leaveAllRooms:
  assumes "reg_inv st"
  shows "reg_inv (leaveAllRooms w st)"
proof -
  have a: "\<And>c. rooms st c \<noteq> Some []" and d: "\<And>c. distinct (getRoomParticipants st c)"
    and b: "\<And>w. wsRooms st w \<noteq> Some []"
    and m: "\<And>c w. w \<in> set (getRoomParticipants st c) \<longleftrightarrow> c \<in> set (socketRooms st w)"
    using assms by (simp_all add: reg_inv_def)
  show ?thesis
    unfolding reg_inv_def
    by (auto simp: participants_leaveAllRooms socketRooms_leaveAllRooms
        rooms_leaveAllRooms_nonempty wsRooms_leaveAllRooms_nonempty a b d m distinct_removeAll)
qed


lemma joinRoom_member:
  assumes "reg_inv st" and "w \<in> set (getRoomParticipants st c)"
  shows "joinRoom c w st = st"
proof -
  have m: "c \<in> set (socketRooms st w)"
    using assms by (simp add: reg_inv_def)
  obtain room where r: "rooms st c = Some room" "w \<in> set room"
    using assms(2) by (cases "rooms st c") (auto simp: getRoomParticipants_def)
  obtain cs where s: "wsRooms st w = Some cs" "c \<in> set cs"
    using m by (cases "wsRooms st w") (auto simp: socketRooms_def)
  have "(rooms st)(c \<mapsto> room) = rooms st" "(wsRooms st)(w \<mapsto> cs) = wsRooms st"
    using r s by (auto simp: fun_upd_idem)
  then show ?thesis
    using r s by (simp add: joinRoom_def set_add_def)
qed

lemma leaveRoom_nonmember:
  assumes "reg_inv st" and "w \<notin> set (getRoomParticipants st c)"
  shows "leaveRoom c w st = st"
proof -
  have m: "c \<notin> set (socketRooms st w)"
    using assms by (simp add: reg_inv_def)
  have a: "rooms st c \<noteq> Some []" and b: "wsRooms st w \<noteq> Some []"
    using assms(1) by (simp_all add: reg_inv_def)
  have 1: "room_delete w c (rooms st) = rooms st"
    using assms(2) a
    by (auto simp: room_delete_def set_delete_def getRoomParticipants_def fun_upd_idem
        split: option.splits)
  have 2: "(case wsRooms st w of None \<Rightarrow> wsRooms st
           | Some cs \<Rightarrow> (if set_delete c cs = [] then (wsRooms st)(w := None)
                else (wsRooms st)(w \<mapsto> set_delete c cs))) = wsRooms st"
    using m b by (auto simp: set_delete_def socketRooms_def fun_upd_idem split: option.splits)
  show ?thesis
    unfolding leaveRoom_def 1 2 by simp
qed

lemma reg_inv_ops: "reg_inv st \<Longrightarrow> reg_inv (fold room_op_apply ops st)"
proof (induction ops arbitrary: st)
  case Nil
  then show ?case by simp
next
  case (Cons op ops)
  have "reg_inv (room_op_apply op st)"
    using Cons.prems by (cases op) (simp_all add: reg_inv_joinRoom reg_inv_leaveRoom reg_inv_leaveAllRooms)
  then show ?case using Cons.IH by simp
qed

text \<open>
  Claim C9. In every state the registry's own operations produce from the empty one,
  \<open>joinRoom\<close> of a socket that is already a member of the chat, and \<open>leaveRoom\<close> of a
  socket that is not a member, return the state unchanged: both maps, and with them
  every member list and room count.
\<close>

theorem join_leave_idempotent:
  assumes "st = fold room_op_apply ops initial"
  shows "(w \<in> set (getRoomParticipants st c) \<longrightarrow> joinRoom c w st = st) \<and>
         (w \<notin> set (getRoomParticipants st c) \<longrightarrow> leaveRoom c w st = st)"
proof -
  have "reg_inv st"
    unfolding assms by (rule reg_inv_ops) (rule reg_inv_initial)
  then show ?thesis
    by (simp add: joinRoom_member leaveRoom_nonmember)
qed

theorem join_leave_idempotent_witness:
  "1 \<in> set (getRoomParticipants (fold room_op_apply [Join ''A'' 1, Join ''A'' 2] initial) ''A'') \<and>
   joinRoom ''A'' 1 (fold room_op_apply [Join ''A'' 1, Join ''A'' 2] initial)
     = fold room_op_apply [Join ''A'' 1, Join ''A'' 2] initial \<and>
   3 \<notin> set (getRoomParticipants (fold room_op_apply [Join ''A'' 1, Join ''A'' 2] initial) ''A'') \<and>
   leaveRoom ''A'' 3 (fold room_op_apply [Join ''A'' 1, Join ''A'' 2] initial)
     = fold room_op_apply [Join ''A'' 1, Join ''A'' 2] initial"
proof -
  have m1: "1 \<in> set (getRoomParticipants (fold room_op_apply [Join ''A'' 1, Join ''A'' 2] initial) ''A'')"
    by (simp add: participants_joinRoom set_set_add participants_initial)
  have m3: "3 \<notin> set (getRoomParticipants (fold room_op_apply [Join ''A'' 1, Join ''A'' 2] initial) ''A'')"
    by (simp add: participants_joinRoom set_set_add participants_initial)
  show ?thesis
    using m1 m3 join_leave_idempotent [OF refl, of 1 "[Join ''A'' 1, Join ''A'' 2]" "''A''"]
      join_leave_idempotent [OF refl, of 3 "[Join ''A'' 1, Join ''A'' 2]" "''A''"]
    by blast
qed

section \<open>The retrying request executor\<close>

lemma retryable_try:
  "retryable a \<Longrightarrow> \<exists>e. try_attempt a = Inl e \<and> \<not> no_retry e"
proof (cases a)
  case (Rejected m)
  then show ?thesis by (simp add: try_attempt_def)
next
  case (Response status t b js)
  assume "retryable a"
  then have s: "500 \<le> status" using Response by (simp add: retryable_def)
  then have nok: "\<not> response_ok status" by (simp add: response_ok_def)
  show ?thesis
  proof (cases "errorData b")
    case (Inl m)
    then show ?thesis using Response nok by (simp add: try_attempt_def)
  next
    case (Inr d)
    have "\<not> no_retry (http_error status t d)"
      using s by (simp add: http_error_def type_error_def)
    then show ?thesis using Response nok Inr by (simp add: try_attempt_def)
  qed
qed

lemma loop_skip:
  assumes "\<forall>j. attempt \<le> j \<and> j < k \<longrightarrow> retryable (outs j)" and "attempt \<le> k" and "k < retries"
  shows "\<exists>last'. makeRequest_loop outs retries attempt lastE slept =
           makeRequest_loop outs retries k last' (slept @ map backoff_delay [attempt..<k])"
  using assms
proof (induction "k - attempt" arbitrary: attempt lastE slept)
  case 0
  then show ?case by auto
next
  case (Suc d)
  have lt: "attempt < k" using Suc.hyps(2) by simp
  obtain e where e: "try_attempt (outs attempt) = Inl e" "\<not> no_retry e"
    using retryable_try Suc.prems(1) lt by blast
  have step: "makeRequest_loop outs retries attempt lastE slept =
      makeRequest_loop outs retries (Suc attempt) (Some e) (slept @ [backoff_delay attempt])"
    using e lt Suc.prems(3) by (subst makeRequest_loop.simps) auto
  have "\<exists>last'. makeRequest_loop outs retries (Suc attempt) (Some e) (slept @ [backoff_delay attempt]) =
      makeRequest_loop outs retries k last'
        ((slept @ [backoff_delay attempt]) @ map backoff_delay [Suc attempt..<k])"
    using Suc.hyps(2) Suc.prems lt by (intro Suc.hyps(1)) auto
  then show ?case
    using step lt by (simp add: upt_conv_Cons)
qed

lemma makeRequest_skip:
  assumes "\<forall>j<k. retryable (outs j)" and "k < retries"
  shows "\<exists>last'. makeRequest outs retries =
           makeRequest_loop outs retries k last' (map backoff_delay [0..<k])"
  using loop_skip [of 0 k outs retries None "[]"] assms by (simp add: makeRequest_def)

lemma backoff_mono: "backoff_delay i \<le> backoff_delay (Suc i)"
  by (simp add: backoff_delay_def min_def)

lemma backoff_cap: "backoff_delay i \<le> 5000"
  by (simp add: backoff_delay_def)

lemma backoff_exact: "i \<le> 2 \<Longrightarrow> backoff_delay i = 1000 * 2 ^ i"
proof -
  assume "i \<le> 2"
  then have "i = 0 \<or> i = 1 \<or> i = 2" by arith
  then show ?thesis by (auto simp: backoff_delay_def)
qed

lemma backoff_first_two: "map backoff_delay [0..<2] = [1000, 2000]"
proof -
  have "[0..<2] = [0, Suc 0]" by (simp add: upt_conv_Cons numeral_2_eq_2)
  then show ?thesis by (simp add: backoff_delay_def)
qed

text \<open>
  What \<open>makeRequest\<close> does where it does what is asked of it. Let the attempts before
  attempt \<open>k\<close> (\<open>k\<close> below the attempt count) all fail with a server-fault status, a
  network failure or a timeout. Then: a client-fault status (400 to 499) at attempt \<open>k\<close>
  whose body is read and is not \<open>null\<close> is thrown at once, as the \<open>HttpError\<close> of that
  status with the parsed body as details, after \<open>k + 1\<close> calls; an ok reply at attempt
  \<open>k\<close> whose \<open>response.json()\<close> gives a value is returned, with no error; when attempt
  \<open>k\<close> is the last one and fails too, the error thrown is the \<open>HttpError\<close>
  \<open>Request failed after retries\<close> carrying the message of that last failure. The delays
  slept are those of the attempts retried; each is \<open>1000 * 2 ^ i\<close> milliseconds capped
  at 5000.
\<close>

lemma makeRequest_cases:
  fixes outs :: "nat \<Rightarrow> 'a attempt"
  assumes "k < retries" and "\<forall>j<k. retryable (outs j)"
  shows "(\<forall>status t b js d. outs k = Response status t b js \<and> 400 \<le> status \<and> status < 500 \<and>
              errorData b = Inr d \<and> d \<noteq> JNull \<longrightarrow>
            makeRequest outs retries
              = (Inl (http_error status t d), Suc k, map backoff_delay [0..<k]) \<and>
            (\<exists>m. http_error status t d = WebSocketError HttpError m (Some status) (ErrorData d))) \<and>
         (\<forall>v. succeeds (outs k) v \<longrightarrow>
            makeRequest outs retries = (Inr v, Suc k, map backoff_delay [0..<k])) \<and>
         (retryable (outs k) \<and> Suc k = retries \<longrightarrow>
            (\<exists>e. try_attempt (outs k) = Inl e \<and>
               makeRequest outs retries =
                 (Inl (WebSocketError HttpError (Text ''Request failed after retries'') None
                        (OriginalError (Some (message_of e)))),
                  retries, map backoff_delay [0..<k]))) \<and>
         (\<forall>i. backoff_delay i \<le> backoff_delay (Suc i) \<and> backoff_delay i \<le> 5000 \<and>
              (i \<le> 2 \<longrightarrow> backoff_delay i = 1000 * 2 ^ i))"
proof -
  obtain last' where sk: "makeRequest outs retries =
      makeRequest_loop outs retries k last' (map backoff_delay [0..<k])"
    using makeRequest_skip assms by blast
  have a: "makeRequest outs retries
        = (Inl (http_error status t d), Suc k, map backoff_delay [0..<k]) \<and>
      (\<exists>m. http_error status t d = WebSocketError HttpError m (Some status) (ErrorData d))"
    if h: "outs k = Response status t b js" "400 \<le> status" "status < 500"
      "errorData b = Inr d" "d \<noteq> JNull" for status t b js d
  proof -
    have f: "http_error status t d = WebSocketError HttpError
        (HttpStatus status (case property (Some d) ''message'' of None \<Rightarrow> JStr t
            | Some v \<Rightarrow> (if truthy v then v else JStr t))) (Some status) (ErrorData d)"
      using h(5) by (simp add: http_error_def)
    have t: "try_attempt (outs k) = Inl (http_error status t d)"
      using h by (simp add: try_attempt_def response_ok_def)
    have n: "no_retry (http_error status t d)"
      unfolding f using h(2,3) by simp
    have "makeRequest_loop outs retries k last' (map backoff_delay [0..<k])
        = (Inl (http_error status t d), Suc k, map backoff_delay [0..<k])"
      using t n assms(1) by (subst makeRequest_loop.simps) simp
    then show ?thesis using sk f by simp
  qed
  have b: "makeRequest outs retries = (Inr v, Suc k, map backoff_delay [0..<k])"
    if "succeeds (outs k) v" for v
    unfolding sk using that assms(1)
    by (subst makeRequest_loop.simps) (auto simp: try_attempt_def succeeds_def split: attempt.splits)
  have c: "\<exists>e. try_attempt (outs k) = Inl e \<and>
       makeRequest outs retries =
         (Inl (WebSocketError HttpError (Text ''Request failed after retries'') None
                (OriginalError (Some (message_of e)))),
          retries, map backoff_delay [0..<k])"
    if r: "retryable (outs k)" and full: "Suc k = retries"
  proof -
    obtain e where e: "try_attempt (outs k) = Inl e" "\<not> no_retry e"
      using retryable_try r by blast
    have "makeRequest_loop outs retries k last' (map backoff_delay [0..<k]) =
        (Inl (after_retries (Some e)), Suc k, map backoff_delay [0..<k])"
      using e full by (subst makeRequest_loop.simps) auto
    then show ?thesis
      using e(1) full sk by (auto simp: after_retries_def)
  qed
  show ?thesis
    using a b c backoff_mono backoff_cap backoff_exact by blast
qed

text \<open>
  Three runs with the default of three attempts: 503 twice and then a value; a 404 with
  a JSON error body; three timeouts.
\<close>

lemma makeRequest_cases_examples:
  "makeRequest (\<lambda>i. if i < 2 then Response 503 ''Service Unavailable'' (Plain ''busy'') (Inl [])
                      else Response 200 ''OK'' (Plain []) (Inr ())) 3
     = (Inr (), 3, [1000, 2000]) \<and>
   makeRequest (\<lambda>i. Response 404 ''Not Found'' (Parsed (JObj [(''message'', JStr ''no such chat'')]))
                      (Inl [] :: string + unit)) 3
     = (Inl (WebSocketError HttpError (HttpStatus 404 (JStr ''no such chat'')) (Some 404)
              (ErrorData (JObj [(''message'', JStr ''no such chat'')]))), 1, []) \<and>
   makeRequest (\<lambda>i. Rejected ''timeout'' :: unit attempt) 3
     = (Inl (WebSocketError HttpError (Text ''Request failed after retries'') None
              (OriginalError (Some (Text ''timeout'')))), 3, [1000, 2000])"
proof -
  let ?o1 = "\<lambda>i::nat. if i < 2 then Response 503 ''Service Unavailable'' (Plain ''busy'') (Inl [])
                      else Response 200 ''OK'' (Plain []) (Inr ())"
  let ?d = "JObj [(''message'', JStr ''no such chat'')]"
  let ?o2 = "\<lambda>i::nat. Response 404 ''Not Found'' (Parsed ?d) (Inl [] :: string + unit)"
  let ?o3 = "\<lambda>i::nat. Rejected ''timeout'' :: unit attempt"
  have lt: "(2::nat) < 3" "(0::nat) < 3" by simp_all
  have h1: "\<forall>j<2. retryable (?o1 j)" by (simp add: retryable_def)
  have s1: "succeeds (?o1 2) ()" by (simp add: succeeds_def response_ok_def)
  have "makeRequest ?o1 3 = (Inr (), Suc 2, map backoff_delay [0..<2])"
    using makeRequest_cases [of 2 3 ?o1, OF lt(1) h1] s1 by blast
  then have 1: "makeRequest ?o1 3 = (Inr (), 3, [1000, 2000])"
    by (simp only: backoff_first_two) simp
  have h2: "\<forall>j<0. retryable (?o2 j)" by simp
  have e2: "errorData (Parsed ?d) = Inr ?d" "?d \<noteq> JNull" by (simp_all add: errorData_def)
  have "makeRequest ?o2 3
     = (Inl (http_error 404 ''Not Found'' ?d), Suc 0, map backoff_delay [0..<0])"
    using makeRequest_cases [of 0 3 ?o2, OF lt(2) h2] e2 by simp
  then have 2: "makeRequest ?o2 3
     = (Inl (WebSocketError HttpError (HttpStatus 404 (JStr ''no such chat'')) (Some 404)
              (ErrorData ?d)), 1, [])"
    by (simp add: http_error_def property_def)
  have h3: "\<forall>j<2. retryable (?o3 j)" by (simp add: retryable_def)
  have r3: "retryable (?o3 2) \<and> Suc 2 = 3" by (simp add: retryable_def)
  have "\<exists>e. try_attempt (?o3 2) = Inl e \<and> makeRequest ?o3 3
     = (Inl (WebSocketError HttpError (Text ''Request failed after retries'') None
              (OriginalError (Some (message_of e)))), 3, map backoff_delay [0..<2])"
    using makeRequest_cases [of 2 3 ?o3, OF lt(1) h3] r3 by blast
  then have 3: "makeRequest ?o3 3
     = (Inl (WebSocketError HttpError (Text ''Request failed after retries'') None
              (OriginalError (Some (Text ''timeout'')))), 3, [1000, 2000])"
    by (simp only: backoff_first_two) (auto simp: try_attempt_def)
  show ?thesis using 1 2 3 by simp
qed

text \<open>
  Claim C6, evaluated on the code. A downstream service that answers 404 with the JSON
  body \<open>null\<close>: reading \<open>errorData.message\<close> throws a \<open>TypeError\<close> inside the \<open>try\<close>
  block, which is not an \<open>HttpError\<close>, so the client fault is not surfaced at once:
  \<open>makeRequest\<close> makes all three attempts, sleeping 1000 and 2000 milliseconds, and
  throws \<open>Request failed after retries\<close> with no status code. A service that answers 204
  with no body: \<open>response.json()\<close> rejects, so the success is retried twice and ends as
  the same error.
\<close>

theorem client_fault_retried:
  "makeRequest (\<lambda>i. Response 404 ''Not Found'' (Parsed JNull) (Inl [] :: string + unit)) 3
     = (Inl (WebSocketError HttpError (Text ''Request failed after retries'') None
              (OriginalError (Some (Text ''TypeError'')))), 3, [1000, 2000]) \<and>
   makeRequest (\<lambda>i. Response 204 ''No Content'' (Plain [])
                      (Inl ''Unexpected end of JSON input'' :: string + unit)) 3
     = (Inl (WebSocketError HttpError (Text ''Request failed after retries'') None
              (OriginalError (Some (Text ''Unexpected end of JSON input'')))), 3, [1000, 2000])"
  by code_simp

section \<open>Two connections of one identity\<close>

lemma fold_clearTimeout_apply:
  "fold clearTimeout ts m t = (if t \<in> set ts then None else m t)"
  by (induction ts arbitrary: m) (auto simp: clearTimeout_def)

lemma removeUser_found:
  assumes "wsToUserId st w = Some uid" and "uid \<noteq> []" and "connectedUsers st uid = Some user"
  shows "removeUser w st =
     (Some user,
      st\<lparr>timeouts := fold clearTimeout (map snd (typingTimers user)) (timeouts st),
         connectedUsers := (connectedUsers st)(uid := None),
         wsToUserId := (wsToUserId st)(w := None)\<rparr>)"
  using assms by (simp add: removeUser_def)

text \<open>
  Claim C10. Let two session records carry the same (non-empty) identity on different
  sockets. After \<open>addUser\<close> of the first and then of the second, both sockets map to the
  identity, the identity maps to the second record, and \<open>getUserByWs\<close> of the first
  socket returns the second record. In any state with these three entries (the record
  \<open>r\<close> under the identity being the second session's, with whatever timers it has by
  then), \<open>removeUser\<close> of the first socket returns \<open>r\<close>, deletes the identity entry and
  the first socket's entry, clears every timer of \<open>r\<close>, and leaves \<open>isUserOnline\<close> false
  while the second socket still maps to the identity and no longer has a session.
\<close>

theorem second_session_overwrites:
  assumes "userId u1 = uid" and "userId u2 = uid" and "uid \<noteq> []" and "ws u1 \<noteq> ws u2"
  shows "wsToUserId (addUser u2 (addUser u1 st)) (ws u1) = Some uid \<and>
         wsToUserId (addUser u2 (addUser u1 st)) (ws u2) = Some uid \<and>
         connectedUsers (addUser u2 (addUser u1 st)) uid = Some u2 \<and>
         getUserByWs (addUser u2 (addUser u1 st)) (ws u1) = Some u2 \<and>
         (\<forall>s r. wsToUserId s (ws u1) = Some uid \<and> wsToUserId s (ws u2) = Some uid \<and>
                connectedUsers s uid = Some r \<longrightarrow>
            fst (removeUser (ws u1) s) = Some r \<and>
            connectedUsers (snd (removeUser (ws u1) s)) uid = None \<and>
            \<not> isUserOnline (snd (removeUser (ws u1) s)) uid \<and>
            (\<forall>t \<in> set (map snd (typingTimers r)). timeouts (snd (removeUser (ws u1) s)) t = None) \<and>
            wsToUserId (snd (removeUser (ws u1) s)) (ws u1) = None \<and>
            wsToUserId (snd (removeUser (ws u1) s)) (ws u2) = Some uid \<and>
            getUserByWs (snd (removeUser (ws u1) s)) (ws u2) = None)"
proof -
  have a: "wsToUserId (addUser u2 (addUser u1 st)) (ws u1) = Some uid"
    "wsToUserId (addUser u2 (addUser u1 st)) (ws u2) = Some uid"
    "connectedUsers (addUser u2 (addUser u1 st)) uid = Some u2"
    using assms by (simp_all add: addUser_def)
  have g: "getUserByWs (addUser u2 (addUser u1 st)) (ws u1) = Some u2"
    using a assms(3) by (simp add: getUserByWs_def)
  have b: "fst (removeUser (ws u1) s) = Some r \<and>
            connectedUsers (snd (removeUser (ws u1) s)) uid = None \<and>
            \<not> isUserOnline (snd (removeUser (ws u1) s)) uid \<and>
            (\<forall>t \<in> set (map snd (typingTimers r)). timeouts (snd (removeUser (ws u1) s)) t = None) \<and>
            wsToUserId (snd (removeUser (ws u1) s)) (ws u1) = None \<and>
            wsToUserId (snd (removeUser (ws u1) s)) (ws u2) = Some uid \<and>
            getUserByWs (snd (removeUser (ws u1) s)) (ws u2) = None"
    if h: "wsToUserId s (ws u1) = Some uid" "wsToUserId s (ws u2) = Some uid"
      "connectedUsers s uid = Some r" for s r
    using assms(3,4) h
    by (simp add: removeUser_found [OF h(1) assms(3) h(3)] isUserOnline_def getUserByWs_def
        fold_clearTimeout_apply)
  show ?thesis
    using a g b by blast
qed

theorem second_session_overwrites_witness:
  "getUserByWs (addUser (session_of 2 ''u'' [''B'']) (addUser (session_of 1 ''u'' [''A'']) initial)) 1
     = Some (session_of 2 ''u'' [''B'']) \<and>
   \<not> isUserOnline (snd (removeUser 1
        (addUser (session_of 2 ''u'' [''B'']) (addUser (session_of 1 ''u'' [''A'']) initial)))) ''u'' \<and>
   wsToUserId (snd (removeUser 1
        (addUser (session_of 2 ''u'' [''B'']) (addUser (session_of 1 ''u'' [''A'']) initial)))) 2
     = Some ''u''"
proof -
  let ?u1 = "session_of 1 ''u'' [''A'']" and ?u2 = "session_of 2 ''u'' [''B'']"
  have h: "userId ?u1 = ''u''" "userId ?u2 = ''u''" "''u'' \<noteq> []" "ws ?u1 \<noteq> ws ?u2"
    by (simp_all add: session_of_def)
  have w: "ws ?u1 = 1" "ws ?u2 = 2"
    by (simp_all add: session_of_def)
  note t = second_session_overwrites [OF h, of initial]
  show ?thesis
    using t unfolding w by blast
qed

section \<open>Persistence failure\<close>

lemma makeRequest_loop_throws_HttpError:
  "fst (makeRequest_loop outs retries attempt lastE slept) = Inl err \<Longrightarrow>
     \<exists>m sc d. err = WebSocketError HttpError m sc d"
proof (induction outs retries attempt lastE slept rule: makeRequest_loop.induct)
  case (1 outs retries attempt lastError slept)
  show ?case
  proof (cases "attempt < retries")
    case False
    then show ?thesis
      using "1.prems" by (subst (asm) makeRequest_loop.simps) (auto simp: after_retries_def)
  next
    case True
    show ?thesis
    proof (cases "try_attempt (outs attempt)")
      case (Inr v)
      then show ?thesis
        using "1.prems" True by (subst (asm) makeRequest_loop.simps) auto
    next
      case (Inl e)
      show ?thesis
      proof (cases "no_retry e")
        case True
        then obtain m sc d where "e = WebSocketError HttpError m sc d"
          by (cases e rule: no_retry.cases) auto
        then show ?thesis
          using "1.prems" \<open>attempt < retries\<close> Inl True
          by (subst (asm) makeRequest_loop.simps) auto
      next
        case nr: False
        show ?thesis
        proof (cases "attempt = retries - 1")
          case True
          then show ?thesis
            using "1.prems" \<open>attempt < retries\<close> Inl nr
            by (subst (asm) makeRequest_loop.simps) (auto simp: after_retries_def)
        next
          case False
          have "fst (makeRequest_loop outs retries (Suc attempt) (Some e)
                  (slept @ [backoff_delay attempt])) = Inl err"
            using "1.prems" \<open>attempt < retries\<close> Inl nr False
            by (subst (asm) makeRequest_loop.simps) auto
          then show ?thesis
            using "1.IH" \<open>attempt < retries\<close> Inl nr False by blast
        qed
      qed
    qed
  qed
qed

lemma sendMessage_throws_HttpError:
  "sendMessage outs = Inl err \<Longrightarrow> \<exists>m sc d. err = WebSocketError HttpError m sc d"
  unfolding sendMessage_def makeRequest_def by (rule makeRequest_loop_throws_HttpError)

text \<open>
  Claim C7. A \<open>chat:message\<close> frame within the size limit, well-formed, from a socket
  whose session is a member of the chat, whose \<open>httpClient.sendMessage\<close> throws (the
  retries are exhausted, or a client fault came back): the error is an \<open>HttpError\<close>,
  \<open>handleMessage\<close> leaves the whole state as it was, and all it sends is one \<open>error\<close>
  frame with code \<open>HTTP_ERROR\<close> to the sender, so no \<open>chat:message\<close> frame to anyone.
\<close>

theorem persistence_failure:
  assumes size: "int (length s) \<le> maxMessageSize e"
    and parsed: "JSON_parse e s = Some (JObj kvs)"
    and ty: "map_of kvs ''type'' = Some (JStr ''chat:message'')"
    and payload: "map_of kvs ''payload'' = Some (JObj pl)"
    and chat: "map_of pl ''chatId'' = Some (JStr chatId)" "chatId \<noteq> []"
    and body: "map_of pl ''content'' = Some (JStr content)" "content \<noteq> []"
    and user: "getUserByWs st w = Some user" "chatId \<in> set (chatRooms user)"
    and failed: "sendMessage sendOuts = Inl err"
  shows "\<exists>m sc d. err = WebSocketError HttpError m sc d \<and>
           handleMessage e st w (Str s) sendOuts readOuts now
             = (st, [Send w (ErrorMsg ''HTTP_ERROR'' m d)])"
proof -
  obtain m sc d where err: "err = WebSocketError HttpError m sc d"
    using sendMessage_throws_HttpError failed by blast
  have h: "handleChatMessage st w (Some (JObj pl)) sendOuts = Inl err"
    using chat body user failed
    by (simp add: handleChatMessage_def destructurable_def property_def nonempty_string_def)
  have "route e st w (Str s) sendOuts readOuts now = Inl err"
    using size parsed ty payload h
    by (simp add: route_def destructurable_def property_def nonempty_string_def with_state_def)
  then have "handleMessage e st w (Str s) sendOuts readOuts now
      = (st, [Send w (ErrorMsg ''HTTP_ERROR'' m d)])"
    by (simp add: handleMessage_def err sendError_def)
  then show ?thesis using err by blast
qed

theorem persistence_failure_witness:
  "handleMessage
     (env_of (Some (frame_of ''chat:message'' [(''chatId'', JStr ''A''), (''content'', JStr ''hi'')])))
     (exec two_members) 1 (Str ''frame'') failing done_ok ''t''
   = (exec two_members,
      [Send 1 (ErrorMsg ''HTTP_ERROR'' (Text ''Request failed after retries'')
                 (OriginalError (Some (HttpStatus 500 (JStr ''down'')))))])"
proof -
  let ?e = "env_of (Some (frame_of ''chat:message''
              [(''chatId'', JStr ''A''), (''content'', JStr ''hi'')]))"
  let ?user = "\<lparr>userId = ''u'', userName = ''n'', email = ''e'', role = ''buyer'', ws = 1,
      token = ''tok'', chatRooms = [''A''], connectedAt = ''t0'', typingTimers = []\<rparr>"
  have size: "int (length ''frame'') \<le> maxMessageSize ?e"
    by (simp add: env_of_def)
  have parsed: "JSON_parse ?e ''frame'' = Some (JObj [(''type'', JStr ''chat:message''),
      (''payload'', JObj [(''chatId'', JStr ''A''), (''content'', JStr ''hi'')])])"
    by (simp add: env_of_def frame_of_def)
  have user: "getUserByWs (exec two_members) 1 = Some ?user"
    unfolding two_members_def by code_simp
  have failed: "sendMessage (failing :: nat \<Rightarrow> message attempt)
      = Inl (WebSocketError HttpError (Text ''Request failed after retries'') None
               (OriginalError (Some (HttpStatus 500 (JStr ''down'')))))"
    by code_simp
  show ?thesis
    using persistence_failure [OF size parsed _ _ _ _ _ _ user _ failed,
        of "[(''chatId'', JStr ''A''), (''content'', JStr ''hi'')]" "''A''" "''hi''" done_ok "''t''"]
    by simp
qed

section \<open>Read receipts\<close>

text \<open>
  Claim C1, evaluated on the code. Sockets 1 and 2 are the members of chat \<open>A\<close>; socket
  1 sends \<open>chat:read\<close> for a message of \<open>A\<close> and the read state is stored. The only
  frame sent is the \<open>chat:read\<close> to socket 2: \<open>handleChatRead\<close> passes its own socket
  as \<open>excludeWs\<close>, so the reader, a member, gets none.
\<close>

theorem read_receipt_skips_reader:
  "1 \<in> set (getRoomParticipants (exec two_members) ''A'') \<and>
   snd (handleMessage
          (env_of (Some (frame_of ''chat:read'' [(''chatId'', JStr ''A''), (''messageId'', JStr ''m1'')])))
          (exec two_members) 1 (Str ''frame'') stored done_ok ''t'')
     = [Send 2 (ChatRead ''A'' ''m1'' ''u'' ''t'')]"
  unfolding two_members_def by code_simp

section \<open>The size check\<close>

lemma utf8_size_replicate:
  "utf8_size (replicate n c) = n * (if (of_char c :: nat) < 128 then 1 else 2)"
  by (induction n) (simp_all add: utf8_size_def)

text \<open>
  What the check does: a frame whose length in code units exceeds the limit is answered
  with \<open>VALIDATION_ERROR\<close> whatever \<open>JSON.parse\<close> would do with it, and the state stays.
\<close>

lemma oversized_by_length:
  assumes "int (length s) > maxMessageSize e"
  shows "handleMessage e st w (Str s) sendOuts readOuts now
           = (st, [Send w (ErrorMsg ''VALIDATION_ERROR'' (Text ''Message too large'') NoDetails)])"
  using assms by (simp add: handleMessage_def route_def sendError_def)

text \<open>
  Claim C8, evaluated on the code. A text frame of 6000 times the character U+00E9 is
  12000 bytes on the wire, over the limit of 10000, and 6000 code units long, under
  it: \<open>handleMessage\<close> does not answer \<open>VALIDATION_ERROR\<close>, it hands the frame to
  \<open>JSON.parse\<close> (which throws) and answers \<open>INVALID_MESSAGE\<close>.
\<close>

theorem oversized_bytes_reach_parser:
  "utf8_size (replicate 6000 (CHR 0xE9)) = 12000 \<and>
   int (utf8_size (replicate 6000 (CHR 0xE9))) > maxMessageSize (env_of None) \<and>
   handleMessage (env_of None) st w (Str (replicate 6000 (CHR 0xE9))) sendOuts readOuts now
     = (st, [Send w (ErrorMsg ''INVALID_MESSAGE'' (Text ''Invalid JSON format'') NoDetails)])"
proof -
  have 1: "utf8_size (replicate 6000 (CHR 0xE9)) = 12000"
    by (simp add: utf8_size_replicate)
  have 2: "handleMessage (env_of None) st w (Str (replicate 6000 (CHR 0xE9))) sendOuts readOuts now
     = (st, [Send w (ErrorMsg ''INVALID_MESSAGE'' (Text ''Invalid JSON format'') NoDetails)])"
    by (simp add: handleMessage_def route_def sendError_def env_of_def)
  show ?thesis
    using 1 2 by (simp add: env_of_def)
qed

section \<open>The registry's invariant in every reachable state\<close>

lemma same_rooms_refl: "same_rooms st st"
  by (simp add: same_rooms_def)

lemma same_rooms_trans: "same_rooms a b \<Longrightarrow> same_rooms b c \<Longrightarrow> same_rooms a c"
  by (simp add: same_rooms_def)

lemma same_rooms_reg_inv: "same_rooms st st' \<Longrightarrow> reg_inv st \<Longrightarrow> reg_inv st'"
  by (simp add: same_rooms_def reg_inv_def getRoomParticipants_def socketRooms_def)

lemma same_rooms_participants:
  "same_rooms st st' \<Longrightarrow> getRoomParticipants st' c = getRoomParticipants st c"
  by (simp add: same_rooms_def getRoomParticipants_def)

lemma same_rooms_addUser: "same_rooms st (addUser u st)"
  by (simp add: same_rooms_def addUser_def)

lemma same_rooms_removeUser: "same_rooms st (snd (removeUser w st))"
  by (simp add: same_rooms_def removeUser_def split: option.splits)

lemma same_rooms_clearTypingTimer: "same_rooms st (clearTypingTimer uid c st)"
  by (simp add: same_rooms_def clearTypingTimer_def split: option.splits)

lemma same_rooms_setTypingTimer: "same_rooms st (setTypingTimer uid c t st)"
  by (simp add: same_rooms_def setTypingTimer_def split: option.splits)

lemma same_rooms_setTimeout: "same_rooms st (snd (setTimeout cb st))"
  by (simp add: same_rooms_def setTimeout_def)

lemma same_rooms_handleChatTyping:
  assumes "handleChatTyping st w payload = Inr (st', out)"
  shows "same_rooms st st'"
proof -
  have 1: "same_rooms st (setTypingTimer uid c (fst (setTimeout cb (clearTypingTimer uid c st)))
             (snd (setTimeout cb (clearTypingTimer uid c st))))" for uid c cb
    by (meson same_rooms_trans same_rooms_clearTypingTimer same_rooms_setTimeout
        same_rooms_setTypingTimer)
  show ?thesis
    using assms 1 same_rooms_clearTypingTimer
    by (auto simp: handleChatTyping_def Let_def split_beta
        split: option.splits if_splits json.splits)
qed

lemma same_rooms_handleMessage:
  "same_rooms st (fst (handleMessage e st w m sendOuts readOuts now))"
proof (cases "route e st w m sendOuts readOuts now")
  case (Inl err)
  then show ?thesis
    by (cases err) (simp_all add: handleMessage_def same_rooms_refl)
next
  case (Inr r)
  obtain st' out where r: "r = (st', out)" by (cases r)
  have "same_rooms st st'"
    using Inr r same_rooms_handleChatTyping same_rooms_refl
    by (auto simp: route_def Let_def with_state_def split: if_splits option.splits sum.splits)
  then show ?thesis
    using Inr r by (simp add: handleMessage_def)
qed

lemma same_rooms_fireTimeout: "same_rooms st (fst (fireTimeout t st))"
  by (simp add: same_rooms_def fireTimeout_def split: option.splits)

lemma reg_inv_fold_join:
  "reg_inv st \<Longrightarrow> reg_inv (fold (\<lambda>chatId. joinRoom chatId w) cs st)"
  by (induction cs arbitrary: st) (simp_all add: reg_inv_joinRoom)

lemma reg_inv_register_user:
  "reg_inv st \<Longrightarrow> reg_inv (register_user st w p tok cs now)"
  unfolding register_user_def
  by (intro reg_inv_fold_join same_rooms_reg_inv [OF same_rooms_addUser])

lemma reg_inv_handleConnection:
  "reg_inv st \<Longrightarrow> reg_inv (fst (handleConnection st w req a c now))"
  by (simp add: handleConnection_def Let_def reg_inv_register_user split: option.splits sum.splits)

lemma reg_inv_handleConnection_backfill:
  "reg_inv st \<Longrightarrow> reg_inv (fst (handleConnection_backfill st w req a c now))"
  by (simp add: handleConnection_backfill_def Let_def reg_inv_register_user
      split: option.splits sum.splits)

lemma reg_inv_handleDisconnection:
  "reg_inv st \<Longrightarrow> reg_inv (fst (handleDisconnection w st))"
  by (simp add: handleDisconnection_def Let_def reg_inv_leaveAllRooms
      same_rooms_reg_inv [OF same_rooms_removeUser] split: option.splits)

lemma reg_inv_step: "reg_inv st \<Longrightarrow> reg_inv (fst (step ev st))"
  by (cases ev)
    (simp_all add: reg_inv_handleConnection reg_inv_handleConnection_backfill
      reg_inv_handleDisconnection same_rooms_reg_inv [OF same_rooms_handleMessage]
      same_rooms_reg_inv [OF same_rooms_fireTimeout])

lemma reg_inv_exec_from: "reg_inv st \<Longrightarrow> reg_inv (exec_from st evs)"
  unfolding exec_from_def
  by (induction evs arbitrary: st) (simp_all add: reg_inv_step)

lemma reg_inv_exec: "reg_inv (exec evs)"
  unfolding exec_def by (rule reg_inv_exec_from) (rule reg_inv_initial)

section \<open>The typing timer's callback\<close>

text \<open>
  Claim C3, evaluated on the code. After the events of \<open>stale_timer\<close> the session of
  socket 1 is gone from the directory (no record for the socket, none for the identity)
  and the socket is in no room, yet its typing timer is still scheduled: \<open>addUser\<close> of
  socket 2 replaced the record under the shared identity, so the \<open>removeUser\<close> of socket
  1 cleared the timers of that record and not the timer socket 1 had set. When the timer
  fires, the callback, which checks nothing, broadcasts the stop-typing frame to socket 2.
\<close>

theorem stale_timer_broadcasts:
  "getUserByWs (exec stale_timer) 1 = None \<and>
   connectedUsers (exec stale_timer) ''u'' = None \<and>
   1 \<notin> set (getRoomParticipants (exec stale_timer) ''A'') \<and>
   timeouts (exec stale_timer) 0
     = Some \<lparr>t_chatId = ''A'', t_ws = 1, t_userId = ''u'', t_userName = ''n''\<rparr> \<and>
   snd (fireTimeout 0 (exec stale_timer)) = [Send 2 (ChatTyping ''A'' ''u'' ''n'' False)]"
  unfolding stale_timer_def by code_simp

text \<open>\<open>broadcastToRoom\<close> in terms of the room's member list.\<close>

lemma broadcastToRoom_exclude:
  "broadcastToRoom st c m (Some x) =
     map (\<lambda>w. Send w m) (filter (\<lambda>w. w \<noteq> x) (getRoomParticipants st c))"
proof -
  have "(\<lambda>w. Some x \<noteq> Some w) = (\<lambda>w. w \<noteq> x)" by auto
  then show ?thesis
    by (simp add: broadcastToRoom_def getRoomParticipants_def split: option.splits)
qed

lemma broadcastToRoom_all:
  "broadcastToRoom st c m None = map (\<lambda>w. Send w m) (getRoomParticipants st c)"
  by (simp add: broadcastToRoom_def getRoomParticipants_def split: option.splits)

text \<open>
  What the callback does whenever it runs: it sends the stop-typing frame to every
  current member of the timer's chat but the socket that set the timer, and what it sends
  does not depend on what the directory holds. The only state change is that the timeout
  is no longer scheduled.
\<close>

theorem typing_expiry_unconditional:
  assumes "timeouts st t = Some cb"
  shows "fireTimeout t st =
           (st\<lparr>timeouts := (timeouts st)(t := None)\<rparr>,
            map (\<lambda>w. Send w (ChatTyping (t_chatId cb) (t_userId cb) (t_userName cb) False))
              (filter (\<lambda>w. w \<noteq> t_ws cb) (getRoomParticipants st (t_chatId cb)))) \<and>
         snd (fireTimeout t (st\<lparr>connectedUsers := cu, wsToUserId := wu\<rparr>)) = snd (fireTimeout t st)"
  using assms
  by (simp add: fireTimeout_def typingExpired_def broadcastToRoom_exclude getRoomParticipants_def)

theorem typing_expiry_unconditional_witness:
  "fireTimeout 0 (exec stale_timer) =
     ((exec stale_timer)\<lparr>timeouts := (timeouts (exec stale_timer))(0 := None)\<rparr>,
      [Send 2 (ChatTyping ''A'' ''u'' ''n'' False)])"
proof -
  have t: "timeouts (exec stale_timer) 0
     = Some \<lparr>t_chatId = ''A'', t_ws = 1, t_userId = ''u'', t_userName = ''n''\<rparr>"
    unfolding stale_timer_def by code_simp
  have p: "getRoomParticipants (exec stale_timer) ''A'' = [2]"
    unfolding stale_timer_def by code_simp
  show ?thesis
    using typing_expiry_unconditional [OF t] by (simp add: p)
qed

section \<open>The online announcement\<close>

text \<open>
  Claim C2 fails on the code. Socket 1 is in the chats \<open>A\<close> and \<open>B\<close>; socket 2 opens as
  another identity with the same two chats. In either revision of \<open>handleConnection\<close>
  socket 1 is sent the online notice of the new identity twice, once per shared chat.
\<close>

theorem online_notice_twice:
  "count_list
     (snd (step (OpenBackfill 2 with_token (profile_of ''v'') (chats_of [''A'', ''B'']) ''t1'')
             (exec shared_two)))
     (Send 1 (UserOnline ''v'' True)) = 2 \<and>
   count_list
     (snd (step (Open 2 with_token (profile_of ''v'') (chats_of [''A'', ''B'']) ''t1'')
             (exec shared_two)))
     (Send 1 (UserOnline ''v'' True)) = 2"
  unfolding shared_two_def by code_simp

lemma count_list_Send:
  "count_list (map (\<lambda>w. Send w m) xs) (Send w' m) = count_list xs w'"
  by (induction xs) auto

lemma count_list_distinct:
  "distinct xs \<Longrightarrow> count_list xs x = (if x \<in> set xs then 1 else 0)"
  by (induction xs) auto

lemma count_broadcast_all:
  assumes "distinct (getRoomParticipants st c)"
  shows "count_list (broadcastToRoom st c m None) (Send w' m)
           = (if w' \<in> set (getRoomParticipants st c) then 1 else 0)"
  using assms by (simp add: broadcastToRoom_all count_list_Send count_list_distinct)

lemma count_presence_loop:
  assumes "\<And>c. distinct (getRoomParticipants st c)"
  shows "count_list (presence_loop st m cs seen) (Send w' m)
           = card {c \<in> set cs. c \<notin> set seen \<and> w' \<in> set (getRoomParticipants st c)}"
proof (induction cs arbitrary: seen)
  case Nil
  show ?case by simp
next
  case (Cons c cs)
  let ?Q = "\<lambda>c. w' \<in> set (getRoomParticipants st c)"
  show ?case
  proof (cases "c \<in> set seen")
    case True
    have "{x \<in> set (c # cs). x \<notin> set seen \<and> ?Q x} = {x \<in> set cs. x \<notin> set seen \<and> ?Q x}"
      using True by auto
    then show ?thesis
      using True Cons.IH [of seen] by simp
  next
    case False
    let ?S = "{x \<in> set cs. x \<notin> set (set_add c seen) \<and> ?Q x}"
    have fin: "finite ?S" by simp
    have notin: "c \<notin> ?S" by (simp add: set_set_add)
    have split: "{x \<in> set (c # cs). x \<notin> set seen \<and> ?Q x} = (if ?Q c then insert c ?S else ?S)"
      using False by (auto simp: set_set_add)
    have "count_list (presence_loop st m (c # cs) seen) (Send w' m)
        = (if ?Q c then 1 else 0) + card ?S"
      using False Cons.IH [of "set_add c seen"] assms
      by (simp add: count_broadcast_all)
    also have "\<dots> = card (if ?Q c then insert c ?S else ?S)"
      using card_insert_disjoint [OF fin notin] by auto
    also have "\<dots> = card {x \<in> set (c # cs). x \<notin> set seen \<and> ?Q x}"
      by (simp only: split)
    finally show ?thesis .
  qed
qed

lemma count_broadcastPresence:
  assumes "reg_inv st"
  shows "count_list (broadcastPresence st uid online cs) (Send w' (UserOnline uid online))
           = card {c \<in> set cs. w' \<in> set (getRoomParticipants st c)}"
proof -
  have d: "\<And>c. distinct (getRoomParticipants st c)"
    using assms by (simp add: reg_inv_def)
  show ?thesis
    unfolding broadcastPresence_def using count_presence_loop [OF d, of _ _ "[]"] by simp
qed

lemma backfill_room_to_new:
  "e \<in> set (fst (backfill_room st w uid ps seen)) \<Longrightarrow> \<exists>x. e = Send w (UserOnline x True) \<and> x \<noteq> uid"
  by (induction st w uid ps seen rule: backfill_room.induct)
    (auto split: option.splits if_splits prod.splits)

lemma backfill_to_new:
  "e \<in> set (backfill st w uid cs seen) \<Longrightarrow> \<exists>x. e = Send w (UserOnline x True) \<and> x \<noteq> uid"
proof (induction cs arbitrary: seen)
  case Nil
  then show ?case by simp
next
  case (Cons c cs)
  obtain out seen' where r: "backfill_room st w uid (getRoomParticipants st c) seen = (out, seen')"
    by (cases "backfill_room st w uid (getRoomParticipants st c) seen")
  have "e \<in> set out \<or> e \<in> set (backfill st w uid cs seen')"
    using Cons.prems r by auto
  then show ?case
    using Cons.IH [of seen'] backfill_room_to_new [of e st w uid "getRoomParticipants st c" seen] r
    by auto
qed

lemma count_backfill_other:
  "count_list (backfill st w uid cs seen) (Send w' (UserOnline uid b)) = 0"
proof -
  have "Send w' (UserOnline uid b) \<notin> set (backfill st w uid cs seen)"
    using backfill_to_new by blast
  then show ?thesis by (simp add: count_list_0_iff)
qed

lemma participants_fold_join:
  "set (getRoomParticipants (fold (\<lambda>chatId. joinRoom chatId w) cs st) c)
     = (if c \<in> set cs then insert w (set (getRoomParticipants st c))
        else set (getRoomParticipants st c))"
  by (induction cs arbitrary: st) (auto simp: participants_joinRoom set_set_add)

lemma participants_register_user:
  "set (getRoomParticipants (register_user st w p tok cs now) c)
     = (if c \<in> set cs then insert w (set (getRoomParticipants st c))
        else set (getRoomParticipants st c))"
  unfolding register_user_def participants_fold_join
  by (simp add: same_rooms_participants [OF same_rooms_addUser])

lemma count_list_append_Cons:
  "count_list (x # xs @ ys) e = (if x = e then 1 else 0) + count_list xs e + count_list ys e"
  by simp

text \<open>
  Claim C2 as amended. \<open>broadcastPresence\<close> skips a chat id it has already served, not
  a socket: on a successful open, in every reachable state and in either revision,
  a socket other than the new one is sent the online notice of the new identity once
  for each distinct chat of the fetched list that it is a member of.
\<close>

theorem online_notice_per_shared_chat:
  assumes tok: "extractToken req = Some tok"
    and auth: "authenticateConnection req authOut = Inr p"
    and other: "w' \<noteq> w"
  shows "count_list (snd (handleConnection_backfill (exec evs) w req authOut chatsOuts now))
           (Send w' (UserOnline (p_userId p) True))
         = card {c \<in> set (case getChats chatsOuts of Inl error \<Rightarrow> [] | Inr ids \<Rightarrow> ids).
                  w' \<in> set (getRoomParticipants (exec evs) c)} \<and>
         count_list (snd (handleConnection (exec evs) w req authOut chatsOuts now))
           (Send w' (UserOnline (p_userId p) True))
         = card {c \<in> set (case getChats chatsOuts of Inl error \<Rightarrow> [] | Inr ids \<Rightarrow> ids).
                  w' \<in> set (getRoomParticipants (exec evs) c)}"
proof -
  let ?st = "exec evs"
  let ?cs = "case getChats chatsOuts of Inl error \<Rightarrow> [] | Inr ids \<Rightarrow> ids"
  let ?st' = "register_user ?st w p tok ?cs now"
  let ?m = "Send w' (UserOnline (p_userId p) True)"
  have inv: "reg_inv ?st'"
    by (rule reg_inv_register_user) (rule reg_inv_exec)
  have mem: "w' \<in> set (getRoomParticipants ?st' c) \<longleftrightarrow> w' \<in> set (getRoomParticipants ?st c)" for c
    using other by (simp add: participants_register_user)
  have bp: "count_list (broadcastPresence ?st' (p_userId p) True ?cs) ?m
      = card {c \<in> set ?cs. w' \<in> set (getRoomParticipants ?st c)}"
    using count_broadcastPresence [OF inv, of "p_userId p" True ?cs w'] by (simp add: mem)
  have 1: "snd (handleConnection_backfill ?st w req authOut chatsOuts now)
      = Send w (Connected (p_userId p) ?cs) # backfill ?st' w (p_userId p) ?cs []
          @ broadcastPresence ?st' (p_userId p) True ?cs"
    using tok auth by (simp add: handleConnection_backfill_def Let_def)
  have 2: "snd (handleConnection ?st w req authOut chatsOuts now)
      = broadcastPresence ?st' (p_userId p) True ?cs @ [Send w (Connected (p_userId p) ?cs)]"
    using tok auth by (simp add: handleConnection_def Let_def)
  show ?thesis
    unfolding 1 2 using bp other by (simp add: count_backfill_other)
qed

theorem online_notice_per_shared_chat_witness:
  "count_list
     (snd (handleConnection_backfill (exec shared_two) 2 with_token (profile_of ''v'')
             (chats_of [''A'', ''B'']) ''t1''))
     (Send 1 (UserOnline ''v'' True))
   = card {c \<in> set [''A'', ''B'']. 1 \<in> set (getRoomParticipants (exec shared_two) c)} \<and>
   card {c \<in> set [''A'', ''B'']. 1 \<in> set (getRoomParticipants (exec shared_two) c)} = 2"
proof -
  have tok: "extractToken with_token = Some ''tok''"
    by (simp add: extractToken_def with_token_def)
  have auth: "authenticateConnection with_token (profile_of ''v'')
      = Inr \<lparr>p_userId = ''v'', p_email = ''e'', p_name = ''n'', p_role = ''buyer''\<rparr>"
    by code_simp
  have other: "(1::nat) \<noteq> 2" by simp
  have chats: "(case getChats (chats_of [''A'', ''B'']) of Inl error \<Rightarrow> [] | Inr ids \<Rightarrow> ids)
      = [''A'', ''B'']"
    by code_simp
  have two: "card {c \<in> set [''A'', ''B'']. 1 \<in> set (getRoomParticipants (exec shared_two) c)} = 2"
    unfolding shared_two_def by code_simp
  show ?thesis
    using online_notice_per_shared_chat [OF tok auth other, of "[Open 1 with_token (profile_of ''u'') (chats_of [''A'', ''B'']) ''t0'']" "chats_of [''A'', ''B'']" "''t1''"]
      two
    unfolding chats shared_two_def by simp
qed

section \<open>The close sequence\<close>

text \<open>
  Claim C5, evaluated on the code. After the events of \<open>twice_u\<close> the directory has no
  session for socket 2, whose identity entry the close of socket 1 removed. The close
  sequence on socket 2 does nothing: the socket is still a member of chat \<open>A\<close> and its
  entry in \<open>wsToUserId\<close> is still there. And the events of \<open>stale_timer\<close> end with the
  close of socket 1, after which the typing timer that socket 1 set is still scheduled.
\<close>

theorem close_without_session:
  "snd (handleDisconnection 2 (exec twice_u)) = [] \<and>
   2 \<in> set (getRoomParticipants (fst (handleDisconnection 2 (exec twice_u))) ''A'') \<and>
   wsToUserId (fst (handleDisconnection 2 (exec twice_u))) 2 = Some ''u'' \<and>
   timeouts (exec stale_timer) 0
     = Some \<lparr>t_chatId = ''A'', t_ws = 1, t_userId = ''u'', t_userName = ''n''\<rparr>"
  unfolding twice_u_def stale_timer_def by code_simp

lemma getUserByWs_Some:
  "getUserByWs st w = Some user \<longleftrightarrow>
     (\<exists>uid. wsToUserId st w = Some uid \<and> uid \<noteq> [] \<and> connectedUsers st uid = Some user)"
  by (auto simp: getUserByWs_def split: option.splits)

lemma leaveAllRooms_frame:
  "connectedUsers (leaveAllRooms w st) = connectedUsers st"
  "wsToUserId (leaveAllRooms w st) = wsToUserId st"
  "timeouts (leaveAllRooms w st) = timeouts st"
  by (simp_all add: leaveAllRooms_def split: option.splits)

lemma getUserByWs_leaveAllRooms: "getUserByWs (leaveAllRooms w st) w' = getUserByWs st w'"
  by (simp add: getUserByWs_def leaveAllRooms_frame split: option.splits)

lemma leaveAllRooms_absent:
  assumes "reg_inv st"
  shows "w \<notin> set (getRoomParticipants (leaveAllRooms w st) c)"
  using assms by (simp add: participants_leaveAllRooms reg_inv_def)

lemma handleDisconnection_none:
  "getUserByWs st w = None \<Longrightarrow> handleDisconnection w st = (st, [])"
  by (simp add: handleDisconnection_def)

lemma handleDisconnection_found:
  assumes "wsToUserId st w = Some uid" and "uid \<noteq> []" and "connectedUsers st uid = Some user"
  shows "fst (handleDisconnection w st) =
     leaveAllRooms w
       (st\<lparr>timeouts := fold clearTimeout (map snd (typingTimers user)) (timeouts st),
          connectedUsers := (connectedUsers st)(uid := None),
          wsToUserId := (wsToUserId st)(w := None)\<rparr>)"
proof -
  have "getUserByWs st w = Some user"
    using assms by (simp add: getUserByWs_def)
  then show ?thesis
    by (simp add: handleDisconnection_def Let_def removeUser_found [OF assms])
qed

text \<open>
  What the close sequence does in every reachable state. When \<open>getUserByWs\<close> returns a
  record for the socket, after \<open>handleDisconnection\<close> the socket is in no room, its entry
  in \<open>wsToUserId\<close> and the identity entry it pointed to are gone, and every timer that
  record holds is no longer scheduled. With or without a record, running
  \<open>handleDisconnection\<close> again returns the same state and sends nothing.
\<close>

theorem close_sequence:
  "(\<forall>user. getUserByWs (exec evs) w = Some user \<longrightarrow>
      (\<forall>c. w \<notin> set (getRoomParticipants (fst (handleDisconnection w (exec evs))) c)) \<and>
      wsToUserId (fst (handleDisconnection w (exec evs))) w = None \<and>
      (\<forall>uid. wsToUserId (exec evs) w = Some uid \<longrightarrow>
         connectedUsers (fst (handleDisconnection w (exec evs))) uid = None) \<and>
      (\<forall>t \<in> set (map snd (typingTimers user)).
         timeouts (fst (handleDisconnection w (exec evs))) t = None)) \<and>
   handleDisconnection w (fst (handleDisconnection w (exec evs)))
     = (fst (handleDisconnection w (exec evs)), [])"
proof -
  let ?st = "exec evs"
  let ?st' = "fst (handleDisconnection w ?st)"
  have found: "(\<forall>c. w \<notin> set (getRoomParticipants ?st' c)) \<and>
      wsToUserId ?st' w = None \<and>
      (\<forall>uid. wsToUserId ?st w = Some uid \<longrightarrow> connectedUsers ?st' uid = None) \<and>
      (\<forall>t \<in> set (map snd (typingTimers user)). timeouts ?st' t = None) \<and>
      getUserByWs ?st' w = None"
    if u: "getUserByWs ?st w = Some user" for user
  proof -
    obtain uid where uid: "wsToUserId ?st w = Some uid" "uid \<noteq> []" "connectedUsers ?st uid = Some user"
      using u getUserByWs_Some by blast
    let ?st1 = "?st\<lparr>timeouts := fold clearTimeout (map snd (typingTimers user)) (timeouts ?st),
          connectedUsers := (connectedUsers ?st)(uid := None),
          wsToUserId := (wsToUserId ?st)(w := None)\<rparr>"
    have eq: "?st' = leaveAllRooms w ?st1"
      by (rule handleDisconnection_found [OF uid])
    have "same_rooms ?st ?st1" by (simp add: same_rooms_def)
    then have inv1: "reg_inv ?st1"
      using reg_inv_exec same_rooms_reg_inv by blast
    show ?thesis
      unfolding eq using uid(1)
      by (simp add: leaveAllRooms_absent [OF inv1] leaveAllRooms_frame getUserByWs_def
          fold_clearTimeout_apply)
  qed
  have again: "getUserByWs ?st' w = None"
  proof (cases "getUserByWs ?st w")
    case None
    then show ?thesis by (simp add: handleDisconnection_none)
  next
    case (Some user)
    then show ?thesis using found by blast
  qed
  show ?thesis
    using found handleDisconnection_none [OF again] by blast
qed

theorem close_sequence_witness:
  "(\<forall>c. 1 \<notin> set (getRoomParticipants (fst (handleDisconnection 1 (exec two_members))) c)) \<and>
   wsToUserId (fst (handleDisconnection 1 (exec two_members))) 1 = None \<and>
   connectedUsers (fst (handleDisconnection 1 (exec two_members))) ''u'' = None \<and>
   handleDisconnection 1 (fst (handleDisconnection 1 (exec two_members)))
     = (fst (handleDisconnection 1 (exec two_members)), [])"
proof -
  have user: "getUserByWs (exec two_members) 1
      = Some \<lparr>userId = ''u'', userName = ''n'', email = ''e'', role = ''buyer'', ws = 1,
          token = ''tok'', chatRooms = [''A''], connectedAt = ''t0'', typingTimers = []\<rparr>"
    unfolding two_members_def by code_simp
  have uid: "wsToUserId (exec two_members) 1 = Some ''u''"
    unfolding two_members_def by code_simp
  show ?thesis
    using close_sequence [of two_members 1] user uid by blast
qed

section \<open>Registry and directory agree\<close>

lemma same_sessions_refl: "same_sessions st st"
  by (simp add: same_sessions_def)

lemma same_sessions_trans: "same_sessions a b \<Longrightarrow> same_sessions b c \<Longrightarrow> same_sessions a c"
  by (simp add: same_sessions_def)

lemma same_sessions_clearTypingTimer: "same_sessions st (clearTypingTimer uid c st)"
  by (simp add: same_sessions_def clearTypingTimer_def session_core_def split: option.splits)

lemma same_sessions_setTypingTimer: "same_sessions st (setTypingTimer uid c t st)"
  by (simp add: same_sessions_def setTypingTimer_def session_core_def split: option.splits)

lemma same_sessions_setTimeout: "same_sessions st (snd (setTimeout cb st))"
  by (simp add: same_sessions_def setTimeout_def)

lemma same_sessions_handleChatTyping:
  assumes "handleChatTyping st w payload = Inr (st', out)"
  shows "same_sessions st st'"
proof -
  have 1: "same_sessions st (setTypingTimer uid c (fst (setTimeout cb (clearTypingTimer uid c st)))
             (snd (setTimeout cb (clearTypingTimer uid c st))))" for uid c cb
    by (meson same_sessions_trans same_sessions_clearTypingTimer same_sessions_setTimeout
        same_sessions_setTypingTimer)
  show ?thesis
    using assms 1 same_sessions_clearTypingTimer
    by (auto simp: handleChatTyping_def Let_def split_beta
        split: option.splits if_splits json.splits)
qed

lemma same_sessions_handleMessage:
  "same_sessions st (fst (handleMessage e st w m sendOuts readOuts now))"
proof (cases "route e st w m sendOuts readOuts now")
  case (Inl err)
  then show ?thesis
    by (cases err) (simp_all add: handleMessage_def same_sessions_refl)
next
  case (Inr r)
  obtain st' out where r: "r = (st', out)" by (cases r)
  have "same_sessions st st'"
    using Inr r same_sessions_handleChatTyping same_sessions_refl
    by (auto simp: route_def Let_def with_state_def split: if_splits option.splits sum.splits)
  then show ?thesis
    using Inr r by (simp add: handleMessage_def)
qed

lemma same_sessions_fireTimeout: "same_sessions st (fst (fireTimeout t st))"
  by (simp add: same_sessions_def fireTimeout_def split: option.splits)

lemma same_sessions_lookup:
  assumes "same_sessions st st'"
  shows "connectedUsers st' uid = None \<longleftrightarrow> connectedUsers st uid = None"
    and "connectedUsers st' uid = Some u' \<Longrightarrow>
           \<exists>u. connectedUsers st uid = Some u \<and> ws u = ws u' \<and> chatRooms u = chatRooms u'"
proof -
  have eq: "map_option session_core (connectedUsers st' uid)
      = map_option session_core (connectedUsers st uid)"
    using assms by (simp add: same_sessions_def)
  show "connectedUsers st' uid = None \<longleftrightarrow> connectedUsers st uid = None"
    using eq by (cases "connectedUsers st' uid"; cases "connectedUsers st uid") simp_all
  show "\<exists>u. connectedUsers st uid = Some u \<and> ws u = ws u' \<and> chatRooms u = chatRooms u'"
    if "connectedUsers st' uid = Some u'"
    using eq that by (cases "connectedUsers st uid") (auto simp: session_core_def)
qed

lemma same_sessions_sym: "same_sessions st st' \<Longrightarrow> same_sessions st' st"
  by (simp add: same_sessions_def)

lemma dir_inv_socket:
  "dir_inv st \<Longrightarrow> wsToUserId st w = Some uid \<Longrightarrow>
     uid \<noteq> [] \<and> (\<exists>u. connectedUsers st uid = Some u \<and> ws u = w)"
  by (simp add: dir_inv_def)

lemma dir_inv_identity:
  "dir_inv st \<Longrightarrow> connectedUsers st uid = Some u \<Longrightarrow> wsToUserId st (ws u) = Some uid"
  by (simp add: dir_inv_def)

lemma dir_inv_rooms:
  "dir_inv st \<Longrightarrow> set (socketRooms st w)
     = (case getUserByWs st w of None \<Rightarrow> {} | Some u \<Rightarrow> set (chatRooms u))"
  by (simp add: dir_inv_def)

lemma dir_inv_same:
  assumes r: "same_rooms st st'" and s: "same_sessions st st'" and inv: "dir_inv st"
  shows "dir_inv st'"
proof -
  have w: "wsToUserId st' = wsToUserId st"
    using s by (simp add: same_sessions_def)
  have sr: "socketRooms st' = socketRooms st"
    using r by (auto simp: same_rooms_def socketRooms_def)
  have A: "uid \<noteq> [] \<and> (\<exists>u. connectedUsers st' uid = Some u \<and> ws u = x)"
    if h: "wsToUserId st' x = Some uid" for x uid
  proof -
    obtain u where u: "uid \<noteq> []" "connectedUsers st uid = Some u" "ws u = x"
      using dir_inv_socket [OF inv, of x uid] h w by auto
    obtain u' where "connectedUsers st' uid = Some u'" "ws u' = ws u"
      using same_sessions_lookup(2) [OF same_sessions_sym [OF s] u(2)] by auto
    then show ?thesis using u by auto
  qed
  have B: "wsToUserId st' (ws u') = Some uid" if h: "connectedUsers st' uid = Some u'" for uid u'
  proof -
    obtain u where u: "connectedUsers st uid = Some u" "ws u = ws u'"
      using same_sessions_lookup(2) [OF s h] by auto
    show ?thesis using dir_inv_identity [OF inv u(1)] u(2) w by simp
  qed
  have C: "set (socketRooms st' x)
      = (case getUserByWs st' x of None \<Rightarrow> {} | Some u \<Rightarrow> set (chatRooms u))" for x
  proof -
    have old: "set (socketRooms st x)
        = (case getUserByWs st x of None \<Rightarrow> {} | Some u \<Rightarrow> set (chatRooms u))"
      by (rule dir_inv_rooms [OF inv])
    have "(case getUserByWs st' x of None \<Rightarrow> {} | Some u \<Rightarrow> set (chatRooms u))
        = (case getUserByWs st x of None \<Rightarrow> {} | Some u \<Rightarrow> set (chatRooms u))"
    proof (cases "wsToUserId st x")
      case None
      then show ?thesis by (simp add: getUserByWs_def w)
    next
      case (Some uid)
      show ?thesis
      proof (cases "connectedUsers st' uid")
        case None
        then have "connectedUsers st uid = None"
          using same_sessions_lookup(1) [OF s] by simp
        then show ?thesis using None Some by (simp add: getUserByWs_def w)
      next
        case (Some u')
        then obtain u where "connectedUsers st uid = Some u" "chatRooms u = chatRooms u'"
          using same_sessions_lookup(2) [OF s] by blast
        then show ?thesis
          using Some \<open>wsToUserId st x = Some uid\<close> by (simp add: getUserByWs_def w)
      qed
    qed
    then show ?thesis using old sr by simp
  qed
  show ?thesis
    unfolding dir_inv_def using A B C by blast
qed

lemma joinRoom_frame:
  "connectedUsers (joinRoom c w st) = connectedUsers st"
  "wsToUserId (joinRoom c w st) = wsToUserId st"
  by (simp_all add: joinRoom_def)

lemma fold_joinRoom_frame:
  "connectedUsers (fold (\<lambda>chatId. joinRoom chatId w) cs st) = connectedUsers st"
  "wsToUserId (fold (\<lambda>chatId. joinRoom chatId w) cs st) = wsToUserId st"
  by (induction cs arbitrary: st) (simp_all add: joinRoom_frame)

lemma socketRooms_fold_join:
  "set (socketRooms (fold (\<lambda>chatId. joinRoom chatId w) cs st) w')
     = (if w' = w then set cs \<union> set (socketRooms st w) else set (socketRooms st w'))"
  by (induction cs arbitrary: st) (auto simp: socketRooms_joinRoom set_set_add)

lemma set_fold_set_add: "set (fold set_add xs acc) = set xs \<union> set acc"
  by (induction xs arbitrary: acc) (auto simp: set_set_add)

lemma set_new_Set: "set (new_Set xs) = set xs"
  by (simp add: new_Set_def set_fold_set_add)

lemma authenticated_identity:
  "authenticateConnection req a = Inr p \<Longrightarrow> p_userId p \<noteq> []"
  by (auto simp: authenticateConnection_def verifyToken_def
      split: option.splits attempt.splits if_splits sum.splits error_body.splits)

lemma socketRooms_addUser: "socketRooms (addUser u st) x = socketRooms st x"
  by (simp add: socketRooms_def addUser_def)

lemma dir_inv_register_user:
  assumes inv: "dir_inv st"
    and fw: "wsToUserId st w = None"
    and fu: "connectedUsers st (p_userId p) = None"
    and ne: "p_userId p \<noteq> []"
  shows "dir_inv (register_user st w p tok cs now)"
proof -
  let ?uid = "p_userId p"
  let ?rec = "\<lparr>userId = ?uid, userName = p_name p, email = p_email p, role = p_role p, ws = w,
      token = tok, chatRooms = new_Set cs, connectedAt = now, typingTimers = []\<rparr>"
  let ?st' = "register_user st w p tok cs now"
  have wu: "wsToUserId ?st' = (wsToUserId st)(w \<mapsto> ?uid)"
    by (simp add: register_user_def fold_joinRoom_frame addUser_def)
  have cu: "connectedUsers ?st' = (connectedUsers st)(?uid \<mapsto> ?rec)"
    by (simp add: register_user_def fold_joinRoom_frame addUser_def)
  have sr: "set (socketRooms ?st' x)
      = (if x = w then set cs \<union> set (socketRooms st w) else set (socketRooms st x))" for x
    by (simp add: register_user_def socketRooms_fold_join socketRooms_addUser)
  have old_w: "set (socketRooms st w) = {}"
    using dir_inv_rooms [OF inv, of w] fw by (simp add: getUserByWs_def)
  have other: "uid \<noteq> ?uid" if "wsToUserId st x = Some uid" for x uid
    using dir_inv_socket [OF inv that] fu by auto
  have A: "uid \<noteq> [] \<and> (\<exists>u. connectedUsers ?st' uid = Some u \<and> ws u = x)"
    if h: "wsToUserId ?st' x = Some uid" for x uid
  proof (cases "x = w")
    case True
    then show ?thesis using h ne by (simp add: wu cu)
  next
    case False
    then have o: "wsToUserId st x = Some uid" using h by (simp add: wu)
    show ?thesis
      using dir_inv_socket [OF inv o] other [OF o] by (simp add: cu)
  qed
  have B: "wsToUserId ?st' (ws u) = Some uid" if h: "connectedUsers ?st' uid = Some u" for uid u
  proof (cases "uid = ?uid")
    case True
    then show ?thesis using h by (auto simp: wu cu)
  next
    case False
    then have o: "connectedUsers st uid = Some u" using h by (simp add: cu)
    have "wsToUserId st (ws u) = Some uid" by (rule dir_inv_identity [OF inv o])
    then show ?thesis using fw by (auto simp: wu)
  qed
  have C: "set (socketRooms ?st' x)
      = (case getUserByWs ?st' x of None \<Rightarrow> {} | Some u \<Rightarrow> set (chatRooms u))" for x
  proof (cases "x = w")
    case True
    then show ?thesis
      using ne by (simp add: sr old_w getUserByWs_def wu cu set_new_Set)
  next
    case False
    have "getUserByWs ?st' x = getUserByWs st x"
    proof (cases "wsToUserId st x")
      case None
      then show ?thesis using False by (simp add: getUserByWs_def wu)
    next
      case (Some uid)
      then show ?thesis using False other [OF Some] by (simp add: getUserByWs_def wu cu)
    qed
    then show ?thesis
      using False dir_inv_rooms [OF inv, of x] by (simp add: sr)
  qed
  show ?thesis
    unfolding dir_inv_def using A B C by blast
qed

lemma dir_inv_handleDisconnection:
  assumes inv: "dir_inv st"
  shows "dir_inv (fst (handleDisconnection w st))"
proof (cases "getUserByWs st w")
  case None
  then show ?thesis using inv by (simp add: handleDisconnection_none)
next
  case (Some user)
  then obtain uid where uid: "wsToUserId st w = Some uid" "uid \<noteq> []" "connectedUsers st uid = Some user"
    using getUserByWs_Some by blast
  let ?st1 = "st\<lparr>timeouts := fold clearTimeout (map snd (typingTimers user)) (timeouts st),
          connectedUsers := (connectedUsers st)(uid := None),
          wsToUserId := (wsToUserId st)(w := None)\<rparr>"
  let ?st' = "leaveAllRooms w ?st1"
  have eq: "fst (handleDisconnection w st) = ?st'"
    by (rule handleDisconnection_found [OF uid])
  have wu: "wsToUserId ?st' = (wsToUserId st)(w := None)"
    by (simp add: leaveAllRooms_frame)
  have cu: "connectedUsers ?st' = (connectedUsers st)(uid := None)"
    by (simp add: leaveAllRooms_frame)
  have sr: "socketRooms ?st' x = (if x = w then [] else socketRooms st x)" for x
    by (simp add: socketRooms_leaveAllRooms) (simp add: socketRooms_def)
  have wsu: "ws user = w"
    using dir_inv_socket [OF inv uid(1)] uid(3) by auto
  have other: "uid' \<noteq> uid" if "wsToUserId st x = Some uid'" "x \<noteq> w" for x uid'
    using dir_inv_socket [OF inv that(1)] that(2) uid(3) wsu by auto
  have A: "uid' \<noteq> [] \<and> (\<exists>u. connectedUsers ?st' uid' = Some u \<and> ws u = x)"
    if h: "wsToUserId ?st' x = Some uid'" for x uid'
  proof -
    have x: "x \<noteq> w" "wsToUserId st x = Some uid'"
      using h by (auto simp: wu split: if_splits)
    show ?thesis
      using dir_inv_socket [OF inv x(2)] other [OF x(2) x(1)] by (simp add: cu)
  qed
  have B: "wsToUserId ?st' (ws u) = Some uid'" if h: "connectedUsers ?st' uid' = Some u" for uid' u
  proof -
    have o: "uid' \<noteq> uid" "connectedUsers st uid' = Some u"
      using h by (auto simp: cu split: if_splits)
    have i: "wsToUserId st (ws u) = Some uid'" by (rule dir_inv_identity [OF inv o(2)])
    have "ws u \<noteq> w" using i uid(1) o(1) by auto
    then show ?thesis using i by (simp add: wu)
  qed
  have C: "set (socketRooms ?st' x)
      = (case getUserByWs ?st' x of None \<Rightarrow> {} | Some u \<Rightarrow> set (chatRooms u))" for x
  proof (cases "x = w")
    case True
    then show ?thesis by (simp add: sr getUserByWs_def wu)
  next
    case False
    have "getUserByWs ?st' x = getUserByWs st x"
    proof (cases "wsToUserId st x")
      case None
      then show ?thesis using False by (simp add: getUserByWs_def wu)
    next
      case (Some uid')
      then show ?thesis using False other [OF Some False] by (simp add: getUserByWs_def wu cu)
    qed
    then show ?thesis
      using False dir_inv_rooms [OF inv, of x] by (simp add: sr)
  qed
  show ?thesis
    unfolding eq dir_inv_def using A B C by blast
qed

lemma dir_inv_initial: "dir_inv initial"
  by (simp add: dir_inv_def initial_def socketRooms_def getUserByWs_def)

lemma dir_inv_step:
  assumes inv: "dir_inv st" and fresh: "fresh_open ev st"
  shows "dir_inv (fst (step ev st))"
proof (cases ev)
  case (Open w req authOut chatsOuts now)
  show ?thesis
  proof (cases "authenticateConnection req authOut")
    case (Inl error)
    then show ?thesis
      using inv Open by (simp add: handleConnection_def split: option.splits)
  next
    case (Inr p)
    then have f: "wsToUserId st w = None" "connectedUsers st (p_userId p) = None"
      using fresh Open by (simp_all add: fresh_open_def)
    show ?thesis
      using Open Inr inv
        dir_inv_register_user [OF inv f authenticated_identity [OF Inr]]
      by (simp add: handleConnection_def Let_def split: option.splits)
  qed
next
  case (OpenBackfill w req authOut chatsOuts now)
  show ?thesis
  proof (cases "authenticateConnection req authOut")
    case (Inl error)
    then show ?thesis
      using inv OpenBackfill by (simp add: handleConnection_backfill_def split: option.splits)
  next
    case (Inr p)
    then have f: "wsToUserId st w = None" "connectedUsers st (p_userId p) = None"
      using fresh OpenBackfill by (simp_all add: fresh_open_def)
    show ?thesis
      using OpenBackfill Inr inv
        dir_inv_register_user [OF inv f authenticated_identity [OF Inr]]
      by (simp add: handleConnection_backfill_def Let_def split: option.splits)
  qed
next
  case (Frame e w m sendOuts readOuts now)
  then show ?thesis
    using dir_inv_same [OF same_rooms_handleMessage same_sessions_handleMessage inv] by simp
next
  case (Fire t)
  then show ?thesis
    using dir_inv_same [OF same_rooms_fireTimeout same_sessions_fireTimeout inv] by simp
next
  case (Closed w)
  then show ?thesis
    using dir_inv_handleDisconnection [OF inv] by simp
qed

lemma dir_inv_exec_from:
  "dir_inv st \<Longrightarrow> one_session_each st evs \<Longrightarrow> dir_inv (exec_from st evs)"
  unfolding exec_from_def
  by (induction evs arbitrary: st) (simp_all add: dir_inv_step)

text \<open>
  Where the two views do agree: in every state reached by events of which every open
  that registers a session meets a socket without an entry in \<open>wsToUserId\<close> and an
  identity without an entry in \<open>connectedUsers\<close>, a socket is in a chat's member list
  exactly when the session \<open>getUserByWs\<close> returns for it has the chat in its
  \<open>chatRooms\<close>.
\<close>

theorem registry_directory_consistent:
  assumes "one_session_each initial evs"
  shows "w \<in> set (getRoomParticipants (exec evs) c) \<longleftrightarrow>
           (\<exists>user. getUserByWs (exec evs) w = Some user \<and> c \<in> set (chatRooms user))"
proof -
  have d: "dir_inv (exec evs)"
    unfolding exec_def using dir_inv_exec_from [OF dir_inv_initial assms] .
  have "w \<in> set (getRoomParticipants (exec evs) c) \<longleftrightarrow> c \<in> set (socketRooms (exec evs) w)"
    using reg_inv_exec [of evs] by (simp add: reg_inv_def)
  then show ?thesis
    unfolding dir_inv_rooms [OF d] by (auto split: option.splits)
qed

theorem registry_directory_consistent_witness:
  "one_session_each initial two_members \<and>
   1 \<in> set (getRoomParticipants (exec two_members) ''A'') \<and>
   (\<exists>user. getUserByWs (exec two_members) 1 = Some user \<and> ''A'' \<in> set (chatRooms user)) \<and>
   1 \<notin> set (getRoomParticipants (exec two_members) ''B'')"
proof -
  have h: "one_session_each initial two_members"
    unfolding two_members_def by code_simp
  have m: "1 \<in> set (getRoomParticipants (exec two_members) ''A'')"
    unfolding two_members_def by code_simp
  have n: "1 \<notin> set (getRoomParticipants (exec two_members) ''B'')"
    unfolding two_members_def by code_simp
  show ?thesis
    using h m n registry_directory_consistent [OF h, of 1 "''A''"] by blast
qed

text \<open>
  Claim C4, evaluated on the code. After the events of \<open>twice_u\<close> (one identity on two
  sockets, the first closed) socket 2 is a member of chat \<open>A\<close> while the directory holds
  no session for it, nor for its identity: the \<open>removeUser\<close> of socket 1 found the
  record of socket 2 under the shared identity and deleted it.
\<close>

theorem member_without_session:
  "2 \<in> set (getRoomParticipants (exec twice_u) ''A'') \<and>
   getUserByWs (exec twice_u) 2 = None \<and>
   connectedUsers (exec twice_u) ''u'' = None \<and>
   \<not> one_session_each initial twice_u"
  unfolding twice_u_def by code_simp

section \<open>Further properties\<close>

text \<open>The size check on a frame of 10001 code units.\<close>

theorem oversized_by_length_witness:
  "handleMessage (env_of (Some (frame_of ''ping'' []))) (exec two_members) 1
     (Str (replicate 10001 (CHR ''a''))) stored done_ok ''t''
   = (exec two_members,
      [Send 1 (ErrorMsg ''VALIDATION_ERROR'' (Text ''Message too large'') NoDetails)])"
proof -
  have "int (length (replicate 10001 (CHR ''a''))) > maxMessageSize (env_of (Some (frame_of ''ping'' [])))"
    by (simp add: env_of_def)
  then show ?thesis
    by (rule oversized_by_length)
qed

text \<open>
  Echo suppression. A well-formed \<open>chat:message\<close> frame from a member of the chat whose
  message is stored: the stored message is sent to every member of the chat's room but
  the sender, in the room's order, and the state stays as it was.
\<close>

theorem message_echo_suppressed:
  assumes size: "int (length s) \<le> maxMessageSize e"
    and parsed: "JSON_parse e s = Some (JObj kvs)"
    and ty: "map_of kvs ''type'' = Some (JStr ''chat:message'')"
    and payload: "map_of kvs ''payload'' = Some (JObj pl)"
    and chat: "map_of pl ''chatId'' = Some (JStr chatId)" "chatId \<noteq> []"
    and body: "map_of pl ''content'' = Some (JStr content)" "content \<noteq> []"
    and user: "getUserByWs st w = Some user" "chatId \<in> set (chatRooms user)"
    and saved: "sendMessage sendOuts = Inr response"
  shows "handleMessage e st w (Str s) sendOuts readOuts now
           = (st, map (\<lambda>x. Send x (ChatMessage chatId response))
                    (filter (\<lambda>x. x \<noteq> w) (getRoomParticipants st chatId)))"
proof -
  have h: "handleChatMessage st w (Some (JObj pl)) sendOuts
      = Inr (broadcastToRoom st chatId (ChatMessage chatId response) (Some w))"
    using chat body user saved
    by (simp add: handleChatMessage_def destructurable_def property_def nonempty_string_def)
  have "route e st w (Str s) sendOuts readOuts now
      = Inr (st, broadcastToRoom st chatId (ChatMessage chatId response) (Some w))"
    using size parsed ty payload h
    by (simp add: route_def destructurable_def property_def nonempty_string_def with_state_def)
  then show ?thesis
    by (simp add: handleMessage_def broadcastToRoom_exclude)
qed

theorem message_echo_suppressed_witness:
  "handleMessage
     (env_of (Some (frame_of ''chat:message'' [(''chatId'', JStr ''A''), (''content'', JStr ''hi'')])))
     (exec two_members) 1 (Str ''frame'') stored done_ok ''t''
   = (exec two_members,
      [Send 2 (ChatMessage ''A''
         \<lparr>msg_id = ''m1'', msg_chatId = ''A'', msg_senderId = ''u'', msg_senderName = ''n'',
          msg_content = ''hi'', msg_createdAt = ''t''\<rparr>)])"
proof -
  let ?e = "env_of (Some (frame_of ''chat:message''
              [(''chatId'', JStr ''A''), (''content'', JStr ''hi'')]))"
  let ?user = "\<lparr>userId = ''u'', userName = ''n'', email = ''e'', role = ''buyer'', ws = 1,
      token = ''tok'', chatRooms = [''A''], connectedAt = ''t0'', typingTimers = []\<rparr>"
  have size: "int (length ''frame'') \<le> maxMessageSize ?e"
    by (simp add: env_of_def)
  have parsed: "JSON_parse ?e ''frame'' = Some (JObj [(''type'', JStr ''chat:message''),
      (''payload'', JObj [(''chatId'', JStr ''A''), (''content'', JStr ''hi'')])])"
    by (simp add: env_of_def frame_of_def)
  have user: "getUserByWs (exec two_members) 1 = Some ?user"
    unfolding two_members_def by code_simp
  have saved: "sendMessage stored
      = Inr \<lparr>msg_id = ''m1'', msg_chatId = ''A'', msg_senderId = ''u'', msg_senderName = ''n'',
          msg_content = ''hi'', msg_createdAt = ''t''\<rparr>"
    by code_simp
  have p: "getRoomParticipants (exec two_members) ''A'' = [1, 2]"
    unfolding two_members_def by code_simp
  show ?thesis
    using message_echo_suppressed [OF size parsed _ _ _ _ _ _ user _ saved,
        of "[(''chatId'', JStr ''A''), (''content'', JStr ''hi'')]" "''A''" "''hi''" done_ok "''t''"]
    by (simp add: p)
qed

end
